theory Spec2Isabelle
  imports Main "HOL-Library.Word" "HOL-Library.Sublist"
begin

unbundle bit_operations_syntax

section \<open>fb0rfb: a framebuffer-to-RFB server\<close>

text \<open>
  A shallow embedding of \<^verbatim>\<open>fb0rfb.c\<close>. The program talks to one client socket through
  the system calls \<^verbatim>\<open>write\<close>, \<^verbatim>\<open>read\<close>, \<^verbatim>\<open>select\<close> and \<^verbatim>\<open>close\<close>. The
  outcome of every call is decided by the client and the kernel, so a connection carries
  three scripts, one per call, listing the outcomes of the calls still to come, and a
  trace of the calls made so far. Past the end of its script a call behaves as on a
  socket whose peer has gone: \<^verbatim>\<open>read\<close> returns 0, \<^verbatim>\<open>write\<close> fails with
  \<^verbatim>\<open>EPIPE\<close>, \<^verbatim>\<open>select\<close> reports the socket readable.
\<close>

subsection \<open>Bytes and wire integers\<close>

type_synonym byte = "8 word"

text \<open>\<^verbatim>\<open>htons\<close> / \<^verbatim>\<open>htonl\<close> followed by a write of the variable's memory: the bytes on the
  wire are the big-endian digits of the value.\<close>

definition be16 :: "16 word \<Rightarrow> byte list" where
  "be16 v = [ucast (drop_bit 8 v), ucast v]"

definition be32 :: "32 word \<Rightarrow> byte list" where
  "be32 v = [ucast (drop_bit 24 v), ucast (drop_bit 16 v), ucast (drop_bit 8 v), ucast v]"

text \<open>A read into the variable's memory followed by \<^verbatim>\<open>ntohs\<close> / \<^verbatim>\<open>ntohl\<close>: the value is
  the big-endian number the bytes spell.\<close>

definition ntoh :: "byte list \<Rightarrow> nat" where
  "ntoh bs = foldl (\<lambda>a b. a * 256 + unat b) 0 bs"

subsection \<open>System calls\<close>

datatype errno = EINTR | EAGAIN | EPIPE | ECONNRESET | EIO

text \<open>What the environment answers to one call. \<open>WAccept k\<close>: the kernel takes at most
  \<open>k\<close> bytes of the buffer offered. \<open>RData d\<close>: the bytes \<open>d\<close> are waiting in the
  socket.\<close>

datatype wres = WAccept nat | WFail errno
datatype rres = RData "byte list" | REof | RFail errno
datatype sres = SelReady | SelNone | SelFail errno

datatype event =
    EvWrite "byte list"
  | EvWriteFail errno
  | EvRead "byte list"
  | EvReadFail errno
  | EvSelect sres
  | EvSleep int
  | EvClose

record conn =
  wscript :: "wres list"
  rscript :: "rres list"
  sscript :: "sres list"
  malloc_ok :: bool
  trace :: "event list"

text \<open>The value of a call that returns a count or \<open>-1\<close> with \<^verbatim>\<open>errno\<close> set.\<close>

datatype 'a sysret = Ret 'a | Errno errno

definition emit :: "event \<Rightarrow> conn \<Rightarrow> conn" where
  "emit e c = c\<lparr>trace := trace c @ [e]\<rparr>"

definition sys_write :: "conn \<Rightarrow> byte list \<Rightarrow> nat sysret \<times> conn" where
  "sys_write c buf =
     (case wscript c of
        [] \<Rightarrow> (Errno EPIPE, emit (EvWriteFail EPIPE) c)
      | WFail e # ws \<Rightarrow> (Errno e, emit (EvWriteFail e) (c\<lparr>wscript := ws\<rparr>))
      | WAccept k # ws \<Rightarrow>
          (Ret (min k (length buf)), emit (EvWrite (take k buf)) (c\<lparr>wscript := ws\<rparr>)))"

definition sys_read :: "conn \<Rightarrow> nat \<Rightarrow> byte list sysret \<times> conn" where
  "sys_read c len =
     (case rscript c of
        [] \<Rightarrow> (Ret [], emit (EvRead []) c)
      | REof # rs \<Rightarrow> (Ret [], emit (EvRead []) (c\<lparr>rscript := rs\<rparr>))
      | RFail e # rs \<Rightarrow> (Errno e, emit (EvReadFail e) (c\<lparr>rscript := rs\<rparr>))
      | RData d # rs \<Rightarrow>
          (Ret (take len d),
           emit (EvRead (take len d))
             (c\<lparr>rscript := (if drop len d = [] then rs else RData (drop len d) # rs)\<rparr>)))"

definition sys_select :: "conn \<Rightarrow> sres \<times> conn" where
  "sys_select c =
     (case sscript c of
        [] \<Rightarrow> (SelReady, emit (EvSelect SelReady) c)
      | r # ss \<Rightarrow> (r, emit (EvSelect r) (c\<lparr>sscript := ss\<rparr>)))"

definition close_conn :: "conn \<Rightarrow> conn" where
  "close_conn c = emit EvClose c"

text \<open>C's \<^verbatim>\<open>/\<close> on \<^verbatim>\<open>int\<close> truncates towards zero.\<close>

definition c_div :: "int \<Rightarrow> int \<Rightarrow> int" where
  "c_div a b = sgn a * sgn b * (\<bar>a\<bar> div \<bar>b\<bar>)"

text \<open>\<^verbatim>\<open>msleep\<close>: a \<^verbatim>\<open>select\<close> on no descriptor with the given timeout, whose result is
  not looked at.\<close>

definition msleep :: "int \<Rightarrow> conn \<Rightarrow> conn" where
  "msleep ms c = emit (EvSleep ms) c"

subsection \<open>\<^verbatim>\<open>write_all\<close> and \<^verbatim>\<open>read_all\<close>\<close>

text \<open>Both return \<open>0\<close> or \<open>-1\<close>. \<open>read_all\<close> also gives back what the calls have put
  into the caller's buffer so far.\<close>

function write_all :: "conn \<Rightarrow> byte list \<Rightarrow> int \<times> conn" where
  "write_all c buf =
     (if buf = [] then (0, c)
      else case sys_write c buf of
        (Errno e, c') \<Rightarrow> if e = EINTR then write_all c' buf else (-1, c')
      | (Ret n, c') \<Rightarrow> if n = 0 then (-1, c') else write_all c' (drop n buf))"
  by pat_completeness auto
termination
  by (relation "measure (\<lambda>(c, buf). length buf + length (wscript c))")
     (auto simp: sys_write_def emit_def split: list.splits wres.splits)

declare write_all.simps [simp del]

function read_all :: "conn \<Rightarrow> nat \<Rightarrow> int \<times> byte list \<times> conn" where
  "read_all c len =
     (if len = 0 then (0, [], c)
      else case sys_read c len of
        (Errno e, c') \<Rightarrow> if e = EINTR then read_all c' len else (-1, [], c')
      | (Ret bs, c') \<Rightarrow>
          if length bs = 0 then (-1, [], c')
          else (case read_all c' (len - length bs) of (r, rest, c'') \<Rightarrow> (r, bs @ rest, c'')))"
  by pat_completeness auto
termination
  by (relation "measure (\<lambda>(c, len). len + length (rscript c))")
     (auto simp: sys_read_def emit_def split: list.splits rres.splits if_splits)

declare read_all.simps [simp del]

text \<open>What has been observed on a connection: a projection of its trace.\<close>

definition proj :: "(event \<Rightarrow> 'a list) \<Rightarrow> conn \<Rightarrow> 'a list" where
  "proj f c = concat (map f (trace c))"

fun ev_bytes :: "event \<Rightarrow> byte list" where
  "ev_bytes (EvWrite bs) = bs"
| "ev_bytes _ = []"

fun ev_input :: "event \<Rightarrow> byte list" where
  "ev_input (EvRead bs) = bs"
| "ev_input _ = []"

fun ev_sleep :: "event \<Rightarrow> int list" where
  "ev_sleep (EvSleep ms) = [ms]"
| "ev_sleep _ = []"

fun ev_poll :: "event \<Rightarrow> sres list" where
  "ev_poll (EvSelect r) = [r]"
| "ev_poll _ = []"

fun ev_write_call :: "event \<Rightarrow> event list" where
  "ev_write_call (EvWrite bs) = [EvWrite bs]"
| "ev_write_call (EvWriteFail e) = [EvWriteFail e]"
| "ev_write_call _ = []"

text \<open>The bytes the kernel has taken from the server, the bytes the server has taken from
  the socket, the sleeps made, the answers of the polls made, and the calls of
  \<^verbatim>\<open>write\<close> made, each in order.\<close>

definition sent :: "conn \<Rightarrow> byte list" where
  "sent c = proj ev_bytes c"

definition received :: "conn \<Rightarrow> byte list" where
  "received c = proj ev_input c"

definition sleeps :: "conn \<Rightarrow> int list" where
  "sleeps c = proj ev_sleep c"

definition polls :: "conn \<Rightarrow> sres list" where
  "polls c = proj ev_poll c"

definition write_calls :: "conn \<Rightarrow> event list" where
  "write_calls c = proj ev_write_call c"

subsection \<open>What a script lets through\<close>

text \<open>Whether the outcomes to come let \<open>n\<close> bytes out, or bring \<open>n\<close> bytes in, with
  interrupted calls in between and before any call that makes no progress, any other
  error or the end of the stream; and the bytes to come before the first of these.\<close>

fun delivers :: "wres list \<Rightarrow> nat \<Rightarrow> bool" where
  "delivers ws 0 = True"
| "delivers [] (Suc n) = False"
| "delivers (WFail e # ws) (Suc n) = (e = EINTR \<and> delivers ws (Suc n))"
| "delivers (WAccept k # ws) (Suc n) = (k \<noteq> 0 \<and> delivers ws (Suc n - k))"

fun supplies :: "rres list \<Rightarrow> nat \<Rightarrow> bool" where
  "supplies rs 0 = True"
| "supplies [] (Suc n) = False"
| "supplies (REof # rs) (Suc n) = False"
| "supplies (RFail e # rs) (Suc n) = (e = EINTR \<and> supplies rs (Suc n))"
| "supplies (RData d # rs) (Suc n) = (d \<noteq> [] \<and> supplies rs (Suc n - length d))"

fun incoming :: "rres list \<Rightarrow> byte list" where
  "incoming [] = []"
| "incoming (REof # rs) = []"
| "incoming (RFail e # rs) = (if e = EINTR then incoming rs else [])"
| "incoming (RData d # rs) = (if d = [] then [] else d @ incoming rs)"

subsection \<open>Start-up\<close>

text \<open>The geometry comes from the framebuffer ioctls. Geometry values are taken
  non-negative and small enough for \<^verbatim>\<open>int\<close> and \<^verbatim>\<open>size_t\<close> arithmetic not to wrap.\<close>

record config =
  width :: nat
  height :: nat
  stride :: nat
  fps :: int

text \<open>The rate is \<open>3\<close> unless \<^verbatim>\<open>--fps\<close> is given; then it is what \<^verbatim>\<open>atoi\<close> makes of the
  option's text. The text is taken to be a decimal numeral and is given by the integer it
  spells. \<^verbatim>\<open>atoi\<close> is the C library's: \<^verbatim>\<open>strtol\<close>, which keeps the value within the 64
  bits of a \<^verbatim>\<open>long\<close>, followed by the conversion to \<^verbatim>\<open>int\<close>, which keeps the low 32 bits
  as a two's complement number.\<close>

definition strtol :: "int \<Rightarrow> int" where
  "strtol v = max (- 9223372036854775808) (min 9223372036854775807 v)"

definition atoi :: "int \<Rightarrow> int" where
  "atoi v = sint (word_of_int (strtol v) :: 32 word)"

definition clamp_fps :: "int \<Rightarrow> int" where
  "clamp_fps fps0 =
     (let fps1 = (if fps0 < 1 then 1 else fps0) in if fps1 > 15 then 15 else fps1)"

text \<open>\<open>Inl 3\<close> is the exit status for a framebuffer that is not 32 bits per pixel.\<close>

definition startup :: "int option \<Rightarrow> nat \<Rightarrow> nat \<Rightarrow> nat \<Rightarrow> nat \<Rightarrow> int + config" where
  "startup fps_opt xres yres bits_per_pixel line_length =
     (let fps0 = (case fps_opt of None \<Rightarrow> 3 | Some v \<Rightarrow> atoi v);
          f = clamp_fps fps0 in
      if bits_per_pixel \<noteq> 32 then Inl 3
      else Inr \<lparr>width = xres, height = yres, stride = line_length, fps = f\<rparr>)"

definition frame_delay :: "config \<Rightarrow> int" where
  "frame_delay cfg = c_div 1000 (fps cfg)"

subsection \<open>Handshake\<close>

definition rfb_version :: "byte list" where
  "rfb_version = map of_char ''RFB 003.008'' @ [10]"

definition sec_types :: "byte list" where
  "sec_types = [1, 1]"

definition pixel_format :: "byte list" where
  "pixel_format =
     [32, 24, 0, 1] @ be16 255 @ be16 255 @ be16 255 @ [16, 8, 0] @ [0, 0, 0]"

definition server_name :: "byte list" where
  "server_name = map of_char ''OpenCentauri fb0 (RAW)''"

text \<open>\<^verbatim>\<open>write_all(..) || write_all(..) || ...\<close>: true as soon as one write fails, the later
  ones are then not made.\<close>

fun write_any :: "conn \<Rightarrow> byte list list \<Rightarrow> bool \<times> conn" where
  "write_any c [] = (False, c)"
| "write_any c (b # bs) =
     (case write_all c b of (r, c') \<Rightarrow> if r \<noteq> 0 then (True, c') else write_any c' bs)"

fun read_any :: "conn \<Rightarrow> nat list \<Rightarrow> bool \<times> conn" where
  "read_any c [] = (False, c)"
| "read_any c (n # ns) =
     (case read_all c n of (r, buf, c') \<Rightarrow> if r \<noteq> 0 then (True, c') else read_any c' ns)"

text \<open>The seven steps, last first; each gives \<open>True\<close> when the handshake has completed
  and \<open>False\<close> after \<^verbatim>\<open>close(c); continue;\<close>.\<close>

definition server_init :: "config \<Rightarrow> conn \<Rightarrow> bool \<times> conn" where
  "server_init cfg c =
     (case write_any c
             [be16 (of_nat (width cfg)), be16 (of_nat (height cfg)), pixel_format,
              be32 (of_nat (length server_name)), server_name] of
        (failed, c') \<Rightarrow> if failed then (False, close_conn c') else (True, c'))"

definition client_init :: "config \<Rightarrow> conn \<Rightarrow> bool \<times> conn" where
  "client_init cfg c =
     (case read_all c 1 of
        (r, shared, c') \<Rightarrow> if r \<noteq> 0 then (False, close_conn c') else server_init cfg c')"

definition security_result :: "config \<Rightarrow> conn \<Rightarrow> bool \<times> conn" where
  "security_result cfg c =
     (case write_all c (be32 0) of
        (r, c') \<Rightarrow> if r \<noteq> 0 then (False, close_conn c') else client_init cfg c')"

definition security_choice :: "config \<Rightarrow> conn \<Rightarrow> bool \<times> conn" where
  "security_choice cfg c =
     (case read_all c 1 of
        (r, chosen, c') \<Rightarrow>
          if r \<noteq> 0 then (False, close_conn c')
          else if hd chosen \<noteq> 1 then (False, close_conn c')
          else security_result cfg c')"

definition security_offer :: "config \<Rightarrow> conn \<Rightarrow> bool \<times> conn" where
  "security_offer cfg c =
     (case write_all c sec_types of
        (r, c') \<Rightarrow> if r \<noteq> 0 then (False, close_conn c') else security_choice cfg c')"

definition version_recv :: "config \<Rightarrow> conn \<Rightarrow> bool \<times> conn" where
  "version_recv cfg c =
     (case read_all c 12 of
        (r, cver, c') \<Rightarrow> if r \<noteq> 0 then (False, close_conn c') else security_offer cfg c')"

definition handshake :: "config \<Rightarrow> conn \<Rightarrow> bool \<times> conn" where
  "handshake cfg c =
     (case write_all c rfb_version of
        (r, c') \<Rightarrow> if r \<noteq> 0 then (False, close_conn c') else version_recv cfg c')"

subsection \<open>Client messages\<close>

text \<open>How an iteration of the session loop ends: at its end or a \<^verbatim>\<open>continue\<close>, at a
  \<^verbatim>\<open>break\<close>, or in a read outside the mapped framebuffer.\<close>

datatype ctl = Continue | Break | Fault

text \<open>The two ways out of an inner loop: its condition turns false, or its own
  \<^verbatim>\<open>break\<close>.\<close>

datatype loop_exit = Completed | Aborted

fun set_encodings_loop :: "conn \<Rightarrow> nat \<Rightarrow> loop_exit \<times> conn" where
  "set_encodings_loop c 0 = (Completed, c)"
| "set_encodings_loop c (Suc k) =
     (case read_all c 4 of
        (r, enc, c') \<Rightarrow> if r \<noteq> 0 then (Aborted, c') else set_encodings_loop c' k)"

function cut_text_loop :: "conn \<Rightarrow> nat \<Rightarrow> loop_exit \<times> conn" where
  "cut_text_loop c len =
     (if len = 0 then (Completed, c)
      else let n = (if len > 256 then 256 else len) in
        case read_all c n of
          (r, tmp, c') \<Rightarrow> if r \<noteq> 0 then (Aborted, c') else cut_text_loop c' (len - n))"
  by pat_completeness auto
termination
  by (relation "measure (\<lambda>(c, len). len)") (auto split: if_splits)

declare cut_text_loop.simps [simp del]

definition client_message :: "bool \<Rightarrow> conn \<Rightarrow> ctl \<times> bool \<times> conn" where
  "client_message client_ready c =
     (case sys_read c 1 of
        (Errno e, c1) \<Rightarrow> (Break, client_ready, c1)
      | (Ret got, c1) \<Rightarrow>
          if length got \<noteq> 1 then (Break, client_ready, c1)
          else let msgtype = hd got in
            if msgtype = 0 then
              (case read_all c1 19 of
                 (r, rest, c2) \<Rightarrow>
                   if r \<noteq> 0 then (Break, client_ready, c2) else (Continue, client_ready, c2))
            else if msgtype = 2 then
              (case read_all c1 1 of
                 (r, pad, c2) \<Rightarrow>
                   if r \<noteq> 0 then (Break, client_ready, c2)
                   else (case read_all c2 2 of
                     (r, count, c3) \<Rightarrow>
                       if r \<noteq> 0 then (Break, client_ready, c3)
                       else (case set_encodings_loop c3 (ntoh count) of
                         (ex, c4) \<Rightarrow> (Continue, client_ready, c4))))
            else if msgtype = 3 then
              (case read_all c1 1 of
                 (r, inc, c2) \<Rightarrow>
                   if r \<noteq> 0 then (Break, client_ready, c2)
                   else (case read_any c2 [2, 2, 2, 2] of
                     (failed, c3) \<Rightarrow>
                       if failed then (Break, client_ready, c3) else (Continue, True, c3)))
            else if msgtype = 4 then
              (case read_all c1 7 of
                 (r, rest, c2) \<Rightarrow>
                   if r \<noteq> 0 then (Break, client_ready, c2) else (Continue, client_ready, c2))
            else if msgtype = 5 then
              (case read_all c1 5 of
                 (r, rest, c2) \<Rightarrow>
                   if r \<noteq> 0 then (Break, client_ready, c2) else (Continue, client_ready, c2))
            else if msgtype = 6 then
              (case read_all c1 3 of
                 (r, pad3, c2) \<Rightarrow>
                   if r \<noteq> 0 then (Break, client_ready, c2)
                   else (case read_all c2 4 of
                     (r, len, c3) \<Rightarrow>
                       if r \<noteq> 0 then (Break, client_ready, c3)
                       else (case cut_text_loop c3 (ntoh len) of
                         (ex, c4) \<Rightarrow> (Continue, client_ready, c4))))
            else (Break, client_ready, c1))"

subsection \<open>Frame pump\<close>

text \<open>\<^verbatim>\<open>memcpy(linebuf, fbmem + y * stride, width * 4)\<close>; \<open>None\<close> when the copy would read
  past the end of the mapping.\<close>

definition scanline :: "config \<Rightarrow> byte list \<Rightarrow> nat \<Rightarrow> byte list option" where
  "scanline cfg fbmem y =
     (if y * stride cfg + width cfg * 4 \<le> length fbmem
      then Some (take (width cfg * 4) (drop (y * stride cfg) fbmem))
      else None)"

fun send_scanlines :: "config \<Rightarrow> byte list \<Rightarrow> conn \<Rightarrow> nat list \<Rightarrow> loop_exit option \<times> conn" where
  "send_scanlines cfg fbmem c [] = (Some Completed, c)"
| "send_scanlines cfg fbmem c (y # ys) =
     (case scanline cfg fbmem y of
        None \<Rightarrow> (None, c)
      | Some linebuf \<Rightarrow>
          (case write_all c linebuf of
             (r, c') \<Rightarrow>
               if r \<noteq> 0 then (Some Aborted, c') else send_scanlines cfg fbmem c' ys))"

definition fbup_header :: "byte list" where
  "fbup_header = [0, 0] @ be16 1"

definition send_frame :: "config \<Rightarrow> byte list \<Rightarrow> conn \<Rightarrow> ctl \<times> conn" where
  "send_frame cfg fbmem c =
     (case write_all c fbup_header of
        (r, c1) \<Rightarrow>
          if r \<noteq> 0 then (Break, c1)
          else (case write_any c1
                       [be16 0, be16 0, be16 (of_nat (width cfg)), be16 (of_nat (height cfg)),
                        be32 0] of
            (failed, c2) \<Rightarrow>
              if failed then (Break, c2)
              else (case send_scanlines cfg fbmem c2 [0..<height cfg] of
                (None, c3) \<Rightarrow> (Fault, c3)
              | (Some ex, c3) \<Rightarrow> (Continue, msleep (frame_delay cfg) c3))))"

subsection \<open>Session loop and accept loop\<close>

definition select_failed :: "sres \<Rightarrow> bool" where
  "select_failed r = (case r of SelFail e \<Rightarrow> e \<noteq> EINTR | _ \<Rightarrow> False)"

definition tick :: "config \<Rightarrow> byte list \<Rightarrow> bool \<Rightarrow> conn \<Rightarrow> ctl \<times> bool \<times> conn" where
  "tick cfg fbmem client_ready c =
     (case sys_select c of
        (r, c1) \<Rightarrow>
          if select_failed r then (Break, client_ready, c1)
          else (case (if r = SelReady then client_message client_ready c1
                      else (Continue, client_ready, c1)) of
            (Continue, ready', c2) \<Rightarrow>
              if \<not> ready' then (Continue, ready', msleep 50 c2)
              else (case send_frame cfg fbmem c2 of (k, c3) \<Rightarrow> (k, ready', c3))
          | (k, ready', c2) \<Rightarrow> (k, ready', c2)))"

datatype status = Ended | Running | Crashed

text \<open>The \<^verbatim>\<open>for (;;)\<close> of a session, run for at most the given number of iterations;
  \<open>Running\<close> when it has not left the loop by then.\<close>

fun session_loop :: "nat \<Rightarrow> config \<Rightarrow> byte list \<Rightarrow> bool \<Rightarrow> conn \<Rightarrow> status \<times> bool \<times> conn" where
  "session_loop 0 cfg fbmem client_ready c = (Running, client_ready, c)"
| "session_loop (Suc n) cfg fbmem client_ready c =
     (case tick cfg fbmem client_ready c of
        (Continue, ready', c') \<Rightarrow> session_loop n cfg fbmem ready' c'
      | (Break, ready', c') \<Rightarrow> (Ended, ready', c')
      | (Fault, ready', c') \<Rightarrow> (Crashed, ready', c'))"

text \<open>The body of the accept loop for one accepted client.\<close>

definition serve_client :: "nat \<Rightarrow> config \<Rightarrow> byte list \<Rightarrow> conn \<Rightarrow> status \<times> conn" where
  "serve_client n cfg fbmem c =
     (case handshake cfg c of
        (ok, c1) \<Rightarrow>
          if \<not> ok then (Ended, c1)
          else if \<not> malloc_ok c1 then (Ended, close_conn c1)
          else (case session_loop n cfg fbmem False c1 of
            (Ended, ready, c2) \<Rightarrow> (Ended, close_conn c2)
          | (st, ready, c2) \<Rightarrow> (st, c2)))"

datatype accepted = Accept conn | AcceptFail errno

datatype process = Accepting | Serving | Died | Segfault

text \<open>The accept loop over the clients that connect, each session given at most \<open>n\<close>
  iterations. It gives the state the process is left in and the connections it has
  handled.\<close>

fun accept_loop :: "nat \<Rightarrow> config \<Rightarrow> byte list \<Rightarrow> accepted list \<Rightarrow> process \<times> conn list" where
  "accept_loop n cfg fbmem [] = (Accepting, [])"
| "accept_loop n cfg fbmem (AcceptFail e # as) =
     (if e = EINTR then accept_loop n cfg fbmem as else (Died, []))"
| "accept_loop n cfg fbmem (Accept c # as) =
     (case serve_client n cfg fbmem c of
        (Ended, c') \<Rightarrow> (case accept_loop n cfg fbmem as of (p, cs) \<Rightarrow> (p, c' # cs))
      | (Running, c') \<Rightarrow> (Serving, [c'])
      | (Crashed, c') \<Rightarrow> (Segfault, [c']))"

subsection \<open>Calls other than reads\<close>

text \<open>The trace without its \<^verbatim>\<open>read\<close> calls.\<close>

fun ev_other :: "event \<Rightarrow> event list" where
  "ev_other (EvRead bs) = []"
| "ev_other (EvReadFail e) = []"
| "ev_other ev = [ev]"

definition others :: "conn \<Rightarrow> event list" where
  "others c = proj ev_other c"

subsection \<open>The pixel payload of a frame\<close>

text \<open>What a full frame is to carry: for each row in order, its first \<open>width * 4\<close> bytes,
  the row \<open>y\<close> starting at offset \<open>y * stride\<close> of the framebuffer.\<close>

definition frame_pixels :: "config \<Rightarrow> byte list \<Rightarrow> byte list" where
  "frame_pixels cfg fbmem =
     concat (map (\<lambda>y. map (\<lambda>i. fbmem ! (y * stride cfg + i)) [0..<width cfg * 4])
       [0..<height cfg])"

subsection \<open>The server's side of the handshake\<close>

text \<open>What a completed handshake is to have put on the wire: the version string, the
  security offer, the security result, and ServerInit with the width, the height, the
  pixel format, the length of the name and the name.\<close>

definition server_greeting :: "config \<Rightarrow> byte list" where
  "server_greeting cfg =
     map of_char ''RFB 003.008'' @ [10] @ [1, 1] @ [0, 0, 0, 0] @
     be16 (of_nat (width cfg)) @ be16 (of_nat (height cfg)) @
     [32, 24, 0, 1, 0, 255, 0, 255, 0, 255, 16, 8, 0, 0, 0, 0] @
     [0, 0, 0, 22] @ map of_char ''OpenCentauri fb0 (RAW)''"

subsection \<open>Sample inputs\<close>

text \<open>A one-pixel framebuffer, and clients to run the server against: one that sends two
  FramebufferUpdateRequests, and one that performs the handshake and then sends one.\<close>

definition demo_cfg :: config where
  "demo_cfg = \<lparr>width = 1, height = 1, stride = 4, fps = 3\<rparr>"

definition demo_fb :: "byte list" where
  "demo_fb = [1, 2, 3, 4]"

definition two_requests :: conn where
  "two_requests =
     \<lparr>wscript = replicate 14 (WAccept 16),
      rscript = [RData [3, 0, 0, 0, 0, 0, 0, 1, 0, 1, 3, 1, 0, 0, 0, 0, 0, 1, 0, 1]],
      sscript = [SelReady, SelReady], malloc_ok = True, trace = []\<rparr>"

definition viewer :: conn where
  "viewer =
     \<lparr>wscript = replicate 15 (WAccept 32),
      rscript = [RData rfb_version, RData [1], RData [1],
                 RData [3, 0, 0, 0, 0, 0, 0, 1, 0, 1]],
      sscript = [SelNone, SelReady, SelNone], malloc_ok = True, trace = []\<rparr>"

text \<open>A client whose first message is a FramebufferUpdateRequest, the server's first
  \<^verbatim>\<open>read\<close> being interrupted by a signal.\<close>

definition interrupted :: conn where
  "interrupted =
     \<lparr>wscript = replicate 7 (WAccept 16),
      rscript = [RFail EINTR, RData [3, 0, 0, 0, 0, 0, 0, 1, 0, 1]],
      sscript = [SelReady, SelReady], malloc_ok = True, trace = []\<rparr>"

text \<open>A client that answers the security offer with type 2, and one that performs the
  handshake and then sends a message of type 99.\<close>

definition refuser :: conn where
  "refuser =
     \<lparr>wscript = replicate 8 (WAccept 32), rscript = [RData rfb_version, RData [2]],
      sscript = [], malloc_ok = True, trace = []\<rparr>"

definition stranger :: conn where
  "stranger =
     \<lparr>wscript = replicate 15 (WAccept 32),
      rscript = [RData rfb_version, RData [1], RData [1], RData [99, 0, 0, 0]],
      sscript = [SelReady, SelReady], malloc_ok = True, trace = []\<rparr>"

text \<open>Clients that go away in the middle of a message. The first two are past the
  handshake and have asked for updates: one sends a SetEncodings message announcing two
  encodings and closes its sending side after the first, the other a ClientCutText message
  announcing five bytes of text and closes its sending side after two. The third performs
  the handshake, asks for updates, sends the same SetEncodings message and closes its
  sending side.\<close>

definition short_encodings :: conn where
  "short_encodings =
     \<lparr>wscript = replicate 7 (WAccept 16),
      rscript = [RData [2, 0, 0, 2, 0, 0, 0, 0], REof],
      sscript = [SelReady], malloc_ok = True, trace = []\<rparr>"

definition short_cut_text :: conn where
  "short_cut_text =
     \<lparr>wscript = replicate 7 (WAccept 16),
      rscript = [RData [6, 0, 0, 0, 0, 0, 0, 5, 104, 105], REof],
      sscript = [SelReady], malloc_ok = True, trace = []\<rparr>"

definition half_closing :: conn where
  "half_closing =
     \<lparr>wscript = replicate 22 (WAccept 32),
      rscript = [RData rfb_version, RData [1], RData [1],
                 RData [3, 0, 0, 0, 0, 0, 0, 1, 0, 1], RData [2, 0, 0, 2, 0, 0, 0, 0], REof],
      sscript = [SelReady, SelReady], malloc_ok = True, trace = []\<rparr>"

text \<open>A framebuffer of two rows of one pixel, and clients whose connection is reset while
  the first scanline of a frame is written: one past the handshake that has asked for
  updates, one from its connection on.\<close>

definition two_rows :: config where
  "two_rows = \<lparr>width = 1, height = 2, stride = 4, fps = 3\<rparr>"

definition two_rows_fb :: "byte list" where
  "two_rows_fb = [1, 2, 3, 4, 5, 6, 7, 8]"

definition reset_in_frame :: conn where
  "reset_in_frame =
     \<lparr>wscript = replicate 6 (WAccept 16) @ [WFail ECONNRESET],
      rscript = [], sscript = [SelNone, SelNone], malloc_ok = True, trace = []\<rparr>"

definition reset_in_first_frame :: conn where
  "reset_in_first_frame =
     \<lparr>wscript = replicate 14 (WAccept 32) @ [WFail ECONNRESET],
      rscript = [RData rfb_version, RData [1], RData [1],
                 RData [3, 0, 0, 0, 0, 0, 0, 1, 0, 1]],
      sscript = [SelReady, SelNone], malloc_ok = True, trace = []\<rparr>"

text \<open>A connection on which a transfer goes through in pieces, with an interrupted call
  in between, and one on which it is cut short.\<close>

definition piecewise :: conn where
  "piecewise =
     \<lparr>wscript = [WAccept 5, WFail EINTR, WAccept 100],
      rscript = [RData [1, 2, 3], RFail EINTR,
                 RData [4, 5, 6, 7, 8, 9, 10, 11, 12, 13, 14, 15, 16]],
      sscript = [], malloc_ok = True, trace = []\<rparr>"

definition cut_short :: conn where
  "cut_short =
     \<lparr>wscript = [WAccept 5, WFail ECONNRESET], rscript = [RData [1, 2], REof],
      sscript = [], malloc_ok = True, trace = []\<rparr>"

section \<open>Properties of the byte channel and of the loops\<close>

lemma proj_emit [simp]: "proj f (emit e c) = proj f c @ f e"
  by (simp add: proj_def emit_def)

lemma proj_upd [simp]:
  "proj f (c\<lparr>wscript := ws\<rparr>) = proj f c"
  "proj f (c\<lparr>rscript := rs\<rparr>) = proj f c"
  "proj f (c\<lparr>sscript := ss\<rparr>) = proj f c"
  by (simp_all add: proj_def)

lemma take_min_length [simp]: "take (min k (length xs)) xs = take k xs"
  by (simp add: min_def)

lemma sys_write_Ret:
  "sys_write c buf = (Ret n, c1) \<Longrightarrow> n \<le> length buf \<and> sent c1 = sent c @ take n buf"
  by (auto simp: sys_write_def sent_def split: list.splits wres.splits)

lemma sys_write_Errno:
  "sys_write c buf = (Errno e, c1) \<Longrightarrow> sent c1 = sent c"
  by (auto simp: sys_write_def sent_def split: list.splits wres.splits)

lemma write_all_sent:
  "write_all c buf = (r, c') \<Longrightarrow>
     (r = 0 \<or> r = -1) \<and> (\<exists>p. sent c' = sent c @ p \<and> prefix p buf \<and> (r = 0 \<longleftrightarrow> p = buf))"
proof (induction c buf arbitrary: r c' rule: write_all.induct)
  case (1 c buf)
  show ?case
  proof (cases "buf = []")
    case True
    with "1.prems" show ?thesis by (simp add: write_all.simps)
  next
    case False
    obtain x c1 where sw: "sys_write c buf = (x, c1)" by (cases "sys_write c buf")
    show ?thesis
    proof (cases x)
      case (Errno e)
      show ?thesis
      proof (cases "e = EINTR")
        case True
        with False sw Errno "1.prems" have "write_all c1 buf = (r, c')"
          by (simp add: write_all.simps [of c buf])
        from "1.IH"(2) [OF False sw [symmetric] Errno True this]
        show ?thesis using sys_write_Errno [OF sw [unfolded Errno]] by simp
      next
        case ne: False
        with False sw Errno "1.prems" have "r = -1" "c' = c1"
          by (simp_all add: write_all.simps [of c buf])
        then show ?thesis
          using sys_write_Errno [OF sw [unfolded Errno]] False by auto
      qed
    next
      case (Ret n)
      note sr = sys_write_Ret [OF sw [unfolded Ret]]
      show ?thesis
      proof (cases "n = 0")
        case True
        with False sw Ret "1.prems" have "r = -1" "c' = c1"
          by (simp_all add: write_all.simps [of c buf])
        then show ?thesis using sr True False by auto
      next
        case nz: False
        with False sw Ret "1.prems" have "write_all c1 (drop n buf) = (r, c')"
          by (simp add: write_all.simps [of c buf])
        from "1.IH"(1) [OF False sw [symmetric] Ret nz this]
        obtain p where rr: "r = 0 \<or> r = -1" and p: "sent c' = sent c1 @ p" "prefix p (drop n buf)"
          "(r = 0) = (p = drop n buf)" by blast
        have "sent c' = sent c @ (take n buf @ p)" using p sr by simp
        moreover have "prefix (take n buf @ p) buf"
          using p(2) by (metis append_take_drop_id same_prefix_prefix)
        moreover have "(r = 0) = (take n buf @ p = buf)"
          using p(3) by (metis append_take_drop_id same_append_eq)
        ultimately show ?thesis using rr by blast
      qed
    qed
  qed
qed

lemma write_all_rc: "fst (write_all c buf) = 0 \<or> fst (write_all c buf) = -1"
  using write_all_sent [of c buf "fst (write_all c buf)" "snd (write_all c buf)"] by simp

lemma write_all_ok_sent: "write_all c buf = (0, c') \<Longrightarrow> sent c' = sent c @ buf"
  using write_all_sent [of c buf 0 c'] by auto

lemma sys_write_proj:
  assumes "\<And>bs. f (EvWrite bs) = []" and "\<And>e. f (EvWriteFail e) = []"
  shows "proj f (snd (sys_write c buf)) = proj f c"
  using assms by (auto simp: sys_write_def split: list.splits wres.splits)

lemma write_all_proj:
  assumes "\<And>bs. f (EvWrite bs) = []" and "\<And>e. f (EvWriteFail e) = []"
  shows "proj f (snd (write_all c buf)) = proj f c"
proof (induction c buf rule: write_all.induct)
  case (1 c buf)
  have sw: "proj f (snd (sys_write c buf)) = proj f c"
    by (rule sys_write_proj [OF assms])
  show ?case
  proof (cases "buf = []")
    case True
    then show ?thesis by (simp add: write_all.simps)
  next
    case False
    obtain x c1 where e: "sys_write c buf = (x, c1)" by (cases "sys_write c buf")
    with sw have c1: "proj f c1 = proj f c" by simp
    show ?thesis
    proof (cases x)
      case (Ret n)
      with False e c1 "1.IH"(1) [OF False e [symmetric] Ret] show ?thesis
        by (simp add: write_all.simps [of c buf])
    next
      case (Errno en)
      with False e c1 "1.IH"(2) [OF False e [symmetric] Errno] show ?thesis
        by (simp add: write_all.simps [of c buf])
    qed
  qed
qed

lemma sys_read_proj:
  assumes "\<And>bs. f (EvRead bs) = []" and "\<And>e. f (EvReadFail e) = []"
  shows "proj f (snd (sys_read c len)) = proj f c"
  using assms by (auto simp: sys_read_def split: list.splits rres.splits)

lemma sys_read_Ret:
  "sys_read c len = (Ret bs, c1) \<Longrightarrow> length bs \<le> len \<and> received c1 = received c @ bs"
  by (auto simp: sys_read_def received_def split: list.splits rres.splits)

lemma sys_read_Errno:
  "sys_read c len = (Errno e, c1) \<Longrightarrow> received c1 = received c"
  by (auto simp: sys_read_def received_def split: list.splits rres.splits)

lemma read_all_proj:
  assumes "\<And>bs. f (EvRead bs) = []" and "\<And>e. f (EvReadFail e) = []"
  shows "proj f (snd (snd (read_all c len))) = proj f c"
proof (induction c len rule: read_all.induct)
  case (1 c len)
  have sr: "proj f (snd (sys_read c len)) = proj f c"
    by (rule sys_read_proj [OF assms])
  show ?case
  proof (cases "len = 0")
    case True
    then show ?thesis by (simp add: read_all.simps)
  next
    case False
    obtain x c1 where e: "sys_read c len = (x, c1)" by (cases "sys_read c len")
    with sr have c1: "proj f c1 = proj f c" by simp
    show ?thesis
    proof (cases x)
      case (Ret bs)
      with False e c1 "1.IH"(1) [OF False e [symmetric] Ret] show ?thesis
        by (auto simp: read_all.simps [of c len] split: prod.splits)
    next
      case (Errno en)
      with False e c1 "1.IH"(2) [OF False e [symmetric] Errno] show ?thesis
        by (simp add: read_all.simps [of c len])
    qed
  qed
qed

lemma read_all_received:
  "read_all c len = (r, buf, c') \<Longrightarrow>
     (r = 0 \<or> r = -1) \<and> received c' = received c @ buf \<and> length buf \<le> len \<and>
     (r = 0 \<longleftrightarrow> length buf = len)"
proof (induction c len arbitrary: r buf c' rule: read_all.induct)
  case (1 c len)
  show ?case
  proof (cases "len = 0")
    case True
    with "1.prems" show ?thesis by (simp add: read_all.simps)
  next
    case False
    obtain x c1 where sr: "sys_read c len = (x, c1)" by (cases "sys_read c len")
    show ?thesis
    proof (cases x)
      case (Errno e)
      note q = sys_read_Errno [OF sr [unfolded Errno]]
      show ?thesis
      proof (cases "e = EINTR")
        case True
        with False sr Errno "1.prems" have "read_all c1 len = (r, buf, c')"
          by (simp add: read_all.simps [of c len])
        from "1.IH"(2) [OF False sr [symmetric] Errno True this] q
        show ?thesis by auto
      next
        case ne: False
        with False sr Errno "1.prems" have "r = -1" "buf = []" "c' = c1"
          by (simp_all add: read_all.simps [of c len])
        then show ?thesis using q False by auto
      qed
    next
      case (Ret bs)
      note q = sys_read_Ret [OF sr [unfolded Ret]]
      show ?thesis
      proof (cases "bs = []")
        case True
        with False sr Ret "1.prems" have "r = -1" "buf = []" "c' = c1"
          by (simp_all add: read_all.simps [of c len])
        then show ?thesis using q True False by auto
      next
        case nz: False
        obtain r2 rest c2 where ra: "read_all c1 (len - length bs) = (r2, rest, c2)"
          by (cases "read_all c1 (len - length bs)")
        with nz False sr Ret "1.prems" have eq: "r = r2" "buf = bs @ rest" "c' = c2"
          by (simp_all add: read_all.simps [of c len])
        from nz have "length bs \<noteq> 0" by simp
        from "1.IH"(1) [OF False sr [symmetric] Ret this ra] q eq
        show ?thesis by auto
      qed
    qed
  qed
qed

lemma read_all_rc: "fst (read_all c len) = 0 \<or> fst (read_all c len) = -1"
  using read_all_received [of c len "fst (read_all c len)" "fst (snd (read_all c len))"
      "snd (snd (read_all c len))"] by auto

lemma proj_via_others:
  assumes "\<And>bs. f (EvRead bs) = []" and "\<And>e. f (EvReadFail e) = []"
  shows "proj f c = concat (map f (others c))"
proof -
  have "concat (map f evs) = concat (map f (concat (map ev_other evs)))" for evs
  proof (induction evs)
    case Nil
    show ?case by simp
  next
    case (Cons ev evs)
    then show ?case using assms by (cases ev) simp_all
  qed
  then show ?thesis by (simp add: proj_def others_def)
qed

lemma sent_via_others: "sent c = concat (map ev_bytes (others c))"
  unfolding sent_def by (rule proj_via_others) simp_all

lemma sleeps_via_others: "sleeps c = concat (map ev_sleep (others c))"
  unfolding sleeps_def by (rule proj_via_others) simp_all

lemma polls_via_others: "polls c = concat (map ev_poll (others c))"
  unfolding polls_def by (rule proj_via_others) simp_all

lemma write_calls_via_others: "write_calls c = concat (map ev_write_call (others c))"
  unfolding write_calls_def by (rule proj_via_others) simp_all

lemma sys_read_others: "sys_read c len = (x, c') \<Longrightarrow> others c' = others c"
  using sys_read_proj [of ev_other c len] by (simp add: others_def)

lemma read_all_others: "read_all c len = (r, buf, c') \<Longrightarrow> others c' = others c"
  using read_all_proj [of ev_other c len] by (simp add: others_def)

lemma read_any_others: "read_any c ns = (failed, c') \<Longrightarrow> others c' = others c"
proof (induction ns arbitrary: c)
  case Nil
  then show ?case by simp
next
  case (Cons n ns)
  then show ?case
    by (auto split: prod.splits if_splits dest: read_all_others)
qed

lemma set_encodings_loop_others:
  "set_encodings_loop c k = (ex, c') \<Longrightarrow> others c' = others c"
proof (induction k arbitrary: c)
  case 0
  then show ?case by simp
next
  case (Suc k)
  then show ?case
    by (auto split: prod.splits if_splits dest: read_all_others)
qed

lemma cut_text_loop_others:
  "cut_text_loop c len = (ex, c') \<Longrightarrow> others c' = others c"
proof (induction c len rule: cut_text_loop.induct)
  case (1 c len)
  show ?case
  proof (cases "len = 0")
    case True
    with "1.prems" show ?thesis by (simp add: cut_text_loop.simps)
  next
    case False
    define n where "n = (if 256 < len then 256 else len)"
    obtain r tmp c1 where ra: "read_all c n = (r, tmp, c1)" by (cases "read_all c n")
    note o1 = read_all_others [OF ra]
    show ?thesis
    proof (cases "r = 0")
      case True
      with False ra "1.prems" have "cut_text_loop c1 (len - n) = (ex, c')"
        by (simp add: cut_text_loop.simps [of c len] n_def Let_def)
      from "1.IH" [OF False n_def ra [symmetric] refl _ this] True o1
      show ?thesis by simp
    next
      case ne: False
      with False ra "1.prems" have "c' = c1"
        by (simp add: cut_text_loop.simps [of c len] n_def Let_def)
      with o1 show ?thesis by simp
    qed
  qed
qed

lemma client_message_others:
  "client_message ready c = (k, ready', c') \<Longrightarrow> others c' = others c"
  unfolding client_message_def Let_def
  by (auto split: prod.splits sysret.splits if_splits
      dest!: read_all_others sys_read_others read_any_others set_encodings_loop_others
        cut_text_loop_others)

lemma client_message_flag:
  "client_message ready c = (k, ready', c') \<Longrightarrow> k \<noteq> Fault \<and> (ready \<longrightarrow> ready')"
  unfolding client_message_def Let_def
  by (auto split: prod.splits sysret.splits if_splits)

lemma others_emit [simp]: "others (emit e c) = others c @ ev_other e"
  by (simp add: others_def)

lemma sys_select_others:
  "sys_select c = (r, c1) \<Longrightarrow> others c1 = others c @ [EvSelect r]"
  by (auto simp: sys_select_def others_def split: list.splits)

lemma tick_not_ready:
  assumes "tick cfg fbmem ready c = (k, False, c')"
  shows "\<not> ready \<and> k \<noteq> Fault \<and>
    others c' = others c @ EvSelect (fst (sys_select c)) # (if k = Continue then [EvSleep 50] else [])"
proof -
  obtain r c1 where ss: "sys_select c = (r, c1)" by (cases "sys_select c")
  note o1 = sys_select_others [OF ss]
  show ?thesis
  proof (cases "select_failed r")
    case True
    with assms ss o1 show ?thesis by (simp add: tick_def)
  next
    case nf: False
    show ?thesis
    proof (cases "r = SelReady")
      case True
      obtain k2 r2 c2 where cm: "client_message ready c1 = (k2, r2, c2)"
        by (cases "client_message ready c1")
      note o2 = client_message_others [OF cm] and f2 = client_message_flag [OF cm]
      from assms ss nf True cm o1 o2 f2 show ?thesis
        by (cases k2) (auto simp: tick_def msleep_def split: prod.splits if_splits)
    next
      case False
      with assms ss nf o1 show ?thesis
        by (auto simp: tick_def msleep_def split: prod.splits if_splits)
    qed
  qed
qed

lemma tick_flag:
  "tick cfg fbmem True c = (k, ready', c') \<Longrightarrow> ready'"
  unfolding tick_def
  by (auto split: prod.splits if_splits ctl.splits dest: client_message_flag)

lemma session_loop_flag:
  "session_loop n cfg fbmem True c = (st, ready', c') \<Longrightarrow> ready'"
proof (induction n arbitrary: c)
  case 0
  then show ?case by simp
next
  case (Suc n)
  obtain k r1 c1 where t: "tick cfg fbmem True c = (k, r1, c1)"
    by (cases "tick cfg fbmem True c")
  from tick_flag [OF t] have r1 by simp
  with Suc t show ?case by (cases k) auto
qed

lemma session_loop_not_ready:
  "session_loop n cfg fbmem ready c = (st, False, c') \<Longrightarrow>
     \<not> ready \<and> st \<noteq> Crashed \<and> sent c' = sent c \<and> write_calls c' = write_calls c \<and>
     (\<exists>m\<le>n. sleeps c' = sleeps c @ replicate m 50) \<and>
     length (polls c') \<le> length (polls c) + n"
proof (induction n arbitrary: c ready)
  case 0
  then show ?case by simp
next
  case (Suc n)
  obtain k r1 c1 where t: "tick cfg fbmem ready c = (k, r1, c1)"
    by (cases "tick cfg fbmem ready c")
  show ?case
  proof (cases k)
    case Continue
    with Suc.prems t have sl: "session_loop n cfg fbmem r1 c1 = (st, False, c')" by simp
    from Suc.IH [OF sl] have nr: "\<not> r1" and st: "st \<noteq> Crashed" and
      eq: "sent c' = sent c1" "write_calls c' = write_calls c1" and
      pl: "length (polls c') \<le> length (polls c1) + n" by simp_all
    from Suc.IH [OF sl] obtain m where m: "m \<le> n" "sleeps c' = sleeps c1 @ replicate m 50"
      by blast
    from t nr have t': "tick cfg fbmem ready c = (k, False, c1)" by simp
    from tick_not_ready [OF t'] Continue
    have nr0: "\<not> ready" and o: "others c1 = others c @ [EvSelect (fst (sys_select c)), EvSleep 50]"
      by simp_all
    have "sleeps c' = sleeps c @ replicate (Suc m) 50"
      using m(2) o by (simp add: sleeps_via_others replicate_app_Cons_same)
    moreover have "Suc m \<le> Suc n" using m(1) by simp
    ultimately have "\<exists>m\<le>Suc n. sleeps c' = sleeps c @ replicate m 50" by blast
    with nr0 st eq pl o show ?thesis
      by (simp add: sent_via_others write_calls_via_others polls_via_others)
  next
    case Break
    with Suc.prems t have e: "st = Ended" "r1 = False" "c' = c1" by simp_all
    from t e have t': "tick cfg fbmem ready c = (k, False, c')" by simp
    from tick_not_ready [OF t'] Break
    have nr0: "\<not> ready" and o: "others c' = others c @ [EvSelect (fst (sys_select c))]"
      by simp_all
    have "sleeps c' = sleeps c @ replicate 0 50" using o by (simp add: sleeps_via_others)
    then have "\<exists>m\<le>Suc n. sleeps c' = sleeps c @ replicate m 50" by blast
    with nr0 e o show ?thesis
      by (simp add: sent_via_others write_calls_via_others polls_via_others)
  next
    case Fault
    with Suc.prems t have "r1 = False" by simp
    with t have "tick cfg fbmem ready c = (k, False, c1)" by simp
    from tick_not_ready [OF this] Fault show ?thesis by simp
  qed
qed

lemma write_all_sleeps: "write_all c buf = (r, c') \<Longrightarrow> sleeps c' = sleeps c"
  using write_all_proj [of ev_sleep c buf] by (simp add: sleeps_def)

lemma write_any_sleeps: "write_any c bufs = (failed, c') \<Longrightarrow> sleeps c' = sleeps c"
proof (induction bufs arbitrary: c)
  case Nil
  then show ?case by simp
next
  case (Cons b bufs)
  then show ?case
    by (auto split: prod.splits if_splits dest: write_all_sleeps)
qed

lemma send_scanlines_sleeps:
  "send_scanlines cfg fbmem c ys = (ex, c') \<Longrightarrow> sleeps c' = sleeps c"
proof (induction ys arbitrary: c)
  case Nil
  then show ?case by simp
next
  case (Cons y ys)
  then show ?case
    by (auto split: prod.splits if_splits option.splits dest: write_all_sleeps)
qed

lemma write_any_sent:
  "write_any c bufs = (failed, c') \<Longrightarrow>
     \<exists>p. sent c' = sent c @ p \<and> prefix p (concat bufs) \<and> (\<not> failed \<longrightarrow> p = concat bufs)"
proof (induction bufs arbitrary: c)
  case Nil
  then show ?case by simp
next
  case (Cons b bufs)
  obtain r c1 where w: "write_all c b = (r, c1)" by (cases "write_all c b")
  from write_all_sent [OF w] obtain p where
    p: "sent c1 = sent c @ p" "prefix p b" "(r = 0) = (p = b)" by blast
  show ?case
  proof (cases "r = 0")
    case True
    with Cons.prems w have "write_any c1 bufs = (failed, c')" by simp
    from Cons.IH [OF this] obtain q where
      q: "sent c' = sent c1 @ q" "prefix q (concat bufs)" "\<not> failed \<longrightarrow> q = concat bufs"
      by blast
    from True p have "p = b" by simp
    with p q have "sent c' = sent c @ (b @ q)" "prefix (b @ q) (concat (b # bufs))"
      "\<not> failed \<longrightarrow> b @ q = concat (b # bufs)" by simp_all
    then show ?thesis by blast
  next
    case False
    with Cons.prems w have "failed" "c' = c1" by simp_all
    moreover from p(2) have "prefix p (concat (b # bufs))" by (simp add: prefix_prefix)
    ultimately show ?thesis using p(1) by blast
  qed
qed

lemma send_scanlines_sent:
  assumes "send_scanlines cfg fbmem c ys = (ex, c')"
    and "\<And>y. y \<in> set ys \<Longrightarrow> scanline cfg fbmem y = Some (row y)"
  shows "ex \<noteq> None \<and> (\<exists>p. sent c' = sent c @ p \<and> prefix p (concat (map row ys)) \<and>
           (ex = Some Completed \<longrightarrow> p = concat (map row ys)))"
  using assms
proof (induction ys arbitrary: c)
  case Nil
  then show ?case by auto
next
  case (Cons y ys)
  have sy: "scanline cfg fbmem y = Some (row y)" using Cons.prems(2) by simp
  obtain r c1 where w: "write_all c (row y) = (r, c1)" by (cases "write_all c (row y)")
  from write_all_sent [OF w] obtain p where
    p: "sent c1 = sent c @ p" "prefix p (row y)" "(r = 0) = (p = row y)" by blast
  show ?case
  proof (cases "r = 0")
    case True
    with Cons.prems(1) w sy have "send_scanlines cfg fbmem c1 ys = (ex, c')" by simp
    from Cons.IH [OF this] Cons.prems(2) obtain q where
      ex: "ex \<noteq> None" and
      q: "sent c' = sent c1 @ q" "prefix q (concat (map row ys))"
         "ex = Some Completed \<longrightarrow> q = concat (map row ys)"
      by auto
    from True p have "p = row y" by simp
    with p q have "sent c' = sent c @ (row y @ q)"
      "prefix (row y @ q) (concat (map row (y # ys)))"
      "ex = Some Completed \<longrightarrow> row y @ q = concat (map row (y # ys))" by simp_all
    with ex show ?thesis by blast
  next
    case False
    with Cons.prems(1) w sy have "ex = Some Aborted" "c' = c1" by simp_all
    moreover from p(2) have "prefix p (concat (map row (y # ys)))" by (simp add: prefix_prefix)
    ultimately show ?thesis using p(1) by blast
  qed
qed

lemma take_drop_nth:
  "k + n \<le> length xs \<Longrightarrow> take n (drop k xs) = map (\<lambda>i. xs ! (k + i)) [0..<n]"
  by (rule nth_equalityI) simp_all

lemma scanline_in_range:
  assumes "width cfg * 4 \<le> stride cfg" and "stride cfg * height cfg \<le> length fbmem"
    and "y < height cfg"
  shows "scanline cfg fbmem y = Some (map (\<lambda>i. fbmem ! (y * stride cfg + i)) [0..<width cfg * 4])"
proof -
  have "y * stride cfg + stride cfg \<le> stride cfg * height cfg"
  proof -
    have "Suc y \<le> height cfg" using assms(3) by simp
    then have "Suc y * stride cfg \<le> height cfg * stride cfg" by (rule mult_le_mono1)
    then show ?thesis by (simp add: mult.commute)
  qed
  with assms(1,2) have "y * stride cfg + width cfg * 4 \<le> length fbmem" by linarith
  then show ?thesis by (simp add: scanline_def take_drop_nth)
qed

lemma c_div_pos: "0 \<le> a \<Longrightarrow> 0 < b \<Longrightarrow> c_div a b = a div b"
  by (cases "a = 0") (simp_all add: c_div_def)

lemma clamp_fps_range: "1 \<le> clamp_fps n \<and> clamp_fps n \<le> 15"
  by (simp add: clamp_fps_def Let_def)

lemma sleeps_emit [simp]: "sleeps (emit e c) = sleeps c @ ev_sleep e"
  by (simp add: sleeps_def)

lemma send_frame_sleeps:
  "send_frame cfg fbmem c = (Continue, c') \<Longrightarrow> sleeps c' = sleeps c @ [frame_delay cfg]"
  unfolding send_frame_def
  by (auto simp: msleep_def split: prod.splits if_splits option.splits
      dest!: write_all_sleeps write_any_sleeps send_scanlines_sleeps)

lemma length_frame_pixels: "length (frame_pixels cfg fbmem) = height cfg * width cfg * 4"
  by (simp add: frame_pixels_def length_concat comp_def sum_list_triv)

lemma client_message_other_type:
  "sys_read c 1 = (Ret [t], c1) \<Longrightarrow> t \<noteq> 3 \<Longrightarrow> client_message ready c = (k, ready', c')
     \<Longrightarrow> ready' = ready"
  unfolding client_message_def Let_def
  by (auto split: prod.splits if_splits)

lemma client_message_request:
  "sys_read c 1 = (Ret [3], c1) \<Longrightarrow> read_all c1 1 = (0, inc, c2) \<Longrightarrow>
     read_any c2 [2, 2, 2, 2] = (False, c3) \<Longrightarrow> client_message ready c = (Continue, True, c3)"
  unfolding client_message_def Let_def by simp

lemma tick_bad_type_read:
  assumes "sys_select c = (SelReady, c1)" and "sys_read c1 1 = (x, c2)"
    and "\<forall>b. x \<noteq> Ret [b]"
  shows "tick cfg fbmem ready c = (Break, ready, c2)"
proof -
  have "client_message ready c1 = (Break, ready, c2)"
  proof (cases x)
    case (Errno e)
    with assms(2) show ?thesis by (simp add: client_message_def)
  next
    case (Ret bs)
    with assms(3) have "length bs \<noteq> 1"
      by (cases bs) auto
    with Ret assms(2) show ?thesis by (simp add: client_message_def)
  qed
  with assms(1) show ?thesis by (simp add: tick_def select_failed_def)
qed

lemma read_all_sent: "read_all c len = (r, buf, c') \<Longrightarrow> sent c' = sent c"
  by (simp add: sent_via_others read_all_others)

lemma sent_close_conn [simp]: "sent (close_conn c) = sent c"
  by (simp add: close_conn_def sent_def)

lemma sent_msleep [simp]: "sent (msleep ms c) = sent c"
  by (simp add: msleep_def sent_def)

lemma server_init_sent:
  assumes "server_init cfg c = (True, c')"
  shows "sent c' = sent c @ be16 (of_nat (width cfg)) @ be16 (of_nat (height cfg)) @
       pixel_format @ be32 (of_nat (length server_name)) @ server_name"
proof -
  let ?bufs = "[be16 (of_nat (width cfg)), be16 (of_nat (height cfg)), pixel_format,
              be32 (of_nat (length server_name)), server_name]"
  obtain failed c1 where w: "write_any c ?bufs = (failed, c1)"
    by (cases "write_any c ?bufs")
  with assms have "\<not> failed" "c' = c1"
    by (auto simp del: write_any.simps simp add: server_init_def split: if_splits)
  with write_any_sent [OF w] show ?thesis by auto
qed

lemma client_init_sent:
  "client_init cfg c = (True, c') \<Longrightarrow>
     sent c' = sent c @ be16 (of_nat (width cfg)) @ be16 (of_nat (height cfg)) @ pixel_format @
       be32 (of_nat (length server_name)) @ server_name"
  unfolding client_init_def
  by (auto split: prod.splits if_splits dest!: read_all_sent server_init_sent)

lemma security_result_sent:
  "security_result cfg c = (True, c') \<Longrightarrow>
     sent c' = sent c @ be32 0 @ be16 (of_nat (width cfg)) @ be16 (of_nat (height cfg)) @
       pixel_format @ be32 (of_nat (length server_name)) @ server_name"
  unfolding security_result_def
  by (auto split: prod.splits if_splits dest!: write_all_ok_sent client_init_sent)

lemma security_choice_sent:
  "security_choice cfg c = (True, c') \<Longrightarrow>
     sent c' = sent c @ be32 0 @ be16 (of_nat (width cfg)) @ be16 (of_nat (height cfg)) @
       pixel_format @ be32 (of_nat (length server_name)) @ server_name"
  unfolding security_choice_def
  by (auto split: prod.splits if_splits dest!: read_all_sent security_result_sent)

lemma security_offer_sent:
  "security_offer cfg c = (True, c') \<Longrightarrow>
     sent c' = sent c @ sec_types @ be32 0 @ be16 (of_nat (width cfg)) @
       be16 (of_nat (height cfg)) @ pixel_format @ be32 (of_nat (length server_name)) @
       server_name"
  unfolding security_offer_def
  by (auto split: prod.splits if_splits dest!: write_all_ok_sent security_choice_sent)

lemma version_recv_sent:
  "version_recv cfg c = (True, c') \<Longrightarrow>
     sent c' = sent c @ sec_types @ be32 0 @ be16 (of_nat (width cfg)) @
       be16 (of_nat (height cfg)) @ pixel_format @ be32 (of_nat (length server_name)) @
       server_name"
  unfolding version_recv_def
  by (auto split: prod.splits if_splits dest!: read_all_sent security_offer_sent)

lemma handshake_sent:
  "handshake cfg c = (True, c') \<Longrightarrow>
     sent c' = sent c @ rfb_version @ sec_types @ be32 0 @ be16 (of_nat (width cfg)) @
       be16 (of_nat (height cfg)) @ pixel_format @ be32 (of_nat (length server_name)) @
       server_name"
  unfolding handshake_def
  by (auto split: prod.splits if_splits dest!: write_all_ok_sent version_recv_sent)

lemma rfb_version_bytes: "rfb_version = [82, 70, 66, 32, 48, 48, 51, 46, 48, 48, 56, 10]"
  by (simp add: rfb_version_def)

lemma pixel_format_bytes:
  "pixel_format = [32, 24, 0, 1, 0, 255, 0, 255, 0, 255, 16, 8, 0, 0, 0, 0]"
  by (simp add: pixel_format_def be16_def)

lemma server_name_length: "length server_name = 22"
  by (simp add: server_name_def)

lemma be32_small: "be32 0 = [0, 0, 0, 0]" "be32 22 = [0, 0, 0, 22]"
  by (simp_all add: be32_def)

lemma ntoh_be16: "ntoh (be16 v) = unat v"
proof -
  have "unat v < 65536" using unsigned_less [of v, where 'a = nat] by simp
  then have "unat v div 256 mod 256 = unat v div 256" by simp
  then show ?thesis
    by (simp add: ntoh_def be16_def unsigned_ucast_eq unat_drop_bit_eq drop_bit_eq_div
        take_bit_eq_mod unat_div_distrib)
qed

lemma send_scanlines_appends:
  "send_scanlines cfg fbmem c ys = (ex, c') \<Longrightarrow> \<exists>p. sent c' = sent c @ p"
proof (induction ys arbitrary: c)
  case Nil
  then show ?case by simp
next
  case (Cons y ys)
  show ?case
  proof (cases "scanline cfg fbmem y")
    case None
    with Cons.prems show ?thesis by simp
  next
    case (Some linebuf)
    obtain r c1 where w: "write_all c linebuf = (r, c1)" by (cases "write_all c linebuf")
    from write_all_sent [OF w] obtain p where p: "sent c1 = sent c @ p" by blast
    show ?thesis
    proof (cases "r = 0")
      case True
      with Cons.prems Some w have "send_scanlines cfg fbmem c1 ys = (ex, c')" by simp
      from Cons.IH [OF this] p show ?thesis by auto
    next
      case False
      with Cons.prems Some w have "c' = c1" by simp
      with p show ?thesis by blast
    qed
  qed
qed

lemma send_frame_sent:
  assumes "send_frame cfg fbmem c = (k, c')"
  shows "\<exists>p. sent c' = sent c @ p \<and>
           (prefix fbup_header p \<or> k = Break \<and> prefix p fbup_header)"
proof -
  let ?rect = "[be16 0, be16 0, be16 (of_nat (width cfg)), be16 (of_nat (height cfg)), be32 0]"
  obtain r c1 where w: "write_all c fbup_header = (r, c1)"
    by (cases "write_all c fbup_header")
  from write_all_sent [OF w] obtain p1 where
    p1: "sent c1 = sent c @ p1" "prefix p1 fbup_header" "(r = 0) = (p1 = fbup_header)" by blast
  show ?thesis
  proof (cases "r = 0")
    case False
    with assms w have "k = Break" "c' = c1" by (simp_all add: send_frame_def)
    with p1 show ?thesis by blast
  next
    case True
    with p1 have h: "sent c1 = sent c @ fbup_header" by simp
    obtain failed c2 where a: "write_any c1 ?rect = (failed, c2)"
      by (cases "write_any c1 ?rect")
    from write_any_sent [OF a] obtain p2 where p2: "sent c2 = sent c1 @ p2" by blast
    show ?thesis
    proof (cases failed)
      case True
      with assms w \<open>r = 0\<close> a have "c' = c2"
        by (simp add: send_frame_def del: write_any.simps)
      with h p2 have "sent c' = sent c @ (fbup_header @ p2)" by simp
      then show ?thesis by (metis prefixI)
    next
      case False
      obtain ex c3 where s: "send_scanlines cfg fbmem c2 [0..<height cfg] = (ex, c3)"
        by (cases "send_scanlines cfg fbmem c2 [0..<height cfg]")
      from send_scanlines_appends [OF s] obtain p3 where p3: "sent c3 = sent c2 @ p3" by blast
      from assms w \<open>r = 0\<close> a False s have "sent c' = sent c3"
        by (cases ex) (auto simp add: send_frame_def simp del: write_any.simps)
      with h p2 p3 have "sent c' = sent c @ (fbup_header @ p2 @ p3)" by simp
      then show ?thesis by (metis prefixI)
    qed
  qed
qed

lemma client_message_sent:
  "client_message ready c = (k, ready', c') \<Longrightarrow> sent c' = sent c"
  by (simp add: sent_via_others client_message_others)

lemma sys_select_sent: "sys_select c = (r, c1) \<Longrightarrow> sent c1 = sent c"
  by (simp add: sent_via_others sys_select_others)

lemma tick_sent:
  assumes "tick cfg fbmem ready c = (k, ready', c')"
  shows "\<exists>p. sent c' = sent c @ p \<and>
           (p = [] \<or> prefix fbup_header p \<or> k = Break \<and> prefix p fbup_header)"
proof -
  obtain r c1 where ss: "sys_select c = (r, c1)" by (cases "sys_select c")
  note s1 = sys_select_sent [OF ss]
  obtain k2 r2 c2 where cm:
    "(if r = SelReady then client_message ready c1 else (Continue, ready, c1)) = (k2, r2, c2)"
    by (cases "if r = SelReady then client_message ready c1 else (Continue, ready, c1)")
  have s2: "sent c2 = sent c1"
    using cm client_message_sent by (auto split: if_splits)
  show ?thesis
  proof (cases "select_failed r \<or> k2 \<noteq> Continue \<or> \<not> r2")
    case True
    with assms ss cm have "sent c' = sent c2 \<or> sent c' = sent c1"
      by (cases k2) (auto simp: tick_def split: if_splits)
    with s1 s2 show ?thesis by auto
  next
    case False
    obtain k3 c3 where sf: "send_frame cfg fbmem c2 = (k3, c3)"
      by (cases "send_frame cfg fbmem c2")
    from False assms ss cm sf have "k = k3" "c' = c3"
      by (auto simp: tick_def split: if_splits)
    with send_frame_sent [OF sf] s1 s2 show ?thesis by auto
  qed
qed

lemma session_loop_sent:
  "session_loop n cfg fbmem ready c = (st, ready', c') \<Longrightarrow>
     \<exists>p. sent c' = sent c @ p \<and> (prefix p fbup_header \<or> prefix fbup_header p)"
proof (induction n arbitrary: c ready)
  case 0
  then show ?case by simp
next
  case (Suc n)
  obtain k r1 c1 where t: "tick cfg fbmem ready c = (k, r1, c1)"
    by (cases "tick cfg fbmem ready c")
  from tick_sent [OF t] obtain p1 where p1: "sent c1 = sent c @ p1"
    "p1 = [] \<or> prefix fbup_header p1 \<or> k = Break \<and> prefix p1 fbup_header" by blast
  show ?case
  proof (cases k)
    case Continue
    with Suc.prems t have "session_loop n cfg fbmem r1 c1 = (st, ready', c')" by simp
    from Suc.IH [OF this] obtain p2 where p2: "sent c' = sent c1 @ p2"
      "prefix p2 fbup_header \<or> prefix fbup_header p2" by blast
    from p1 p2 have "sent c' = sent c @ (p1 @ p2)" by simp
    moreover from p1(2) p2(2) Continue
    have "prefix (p1 @ p2) fbup_header \<or> prefix fbup_header (p1 @ p2)"
      by (auto simp: prefix_prefix)
    ultimately show ?thesis by blast
  next
    case Break
    with Suc.prems t have "c' = c1" by simp
    with p1 show ?thesis by auto
  next
    case Fault
    with Suc.prems t have "c' = c1" by simp
    with p1 Fault show ?thesis by auto
  qed
qed

lemma fbup_header_bytes: "fbup_header = [0, 0, 0, 1]"
  by (simp add: fbup_header_def be16_def)

lemma handshake_greeting:
  "handshake cfg c = (True, c') \<Longrightarrow> sent c' = sent c @ server_greeting cfg"
  using handshake_sent [of cfg c c']
  by (simp add: server_greeting_def rfb_version_def sec_types_def be32_small
      pixel_format_bytes server_name_length)
    (simp add: server_name_def)

lemma serve_client_sent:
  assumes "fst (handshake cfg c)" and "serve_client n cfg fbmem c = (st, c'')"
  shows "\<exists>rest. sent c'' = sent c @ server_greeting cfg @ rest \<and>
           (prefix rest [0, 0, 0, 1] \<or> prefix [0, 0, 0, 1] rest)"
proof -
  obtain c1 where h: "handshake cfg c = (True, c1)"
    using assms(1) by (cases "handshake cfg c") simp
  note g = handshake_greeting [OF h]
  show ?thesis
  proof (cases "malloc_ok c1")
    case False
    with assms(2) h have "c'' = close_conn c1" by (simp add: serve_client_def)
    with g show ?thesis by simp
  next
    case True
    obtain s r c2 where l: "session_loop n cfg fbmem False c1 = (s, r, c2)"
      by (cases "session_loop n cfg fbmem False c1")
    from session_loop_sent [OF l] obtain p where
      p: "sent c2 = sent c1 @ p" "prefix p [0, 0, 0, 1] \<or> prefix [0, 0, 0, 1] p"
      by (auto simp: fbup_header_bytes)
    from assms(2) h True l have "sent c'' = sent c2"
      by (cases s) (auto simp: serve_client_def)
    with g p show ?thesis by simp
  qed
qed

lemma write_calls_close_conn [simp]: "write_calls (close_conn c) = write_calls c"
  by (simp add: close_conn_def write_calls_def)

lemma read_all_write_calls:
  "read_all c len = (r, buf, c') \<Longrightarrow> write_calls c' = write_calls c"
  by (simp add: write_calls_via_others read_all_others)

lemma security_choice_refused:
  assumes "write_all c rfb_version = (0, c1)" and "read_all c1 12 = (0, cver, c2)"
    and "write_all c2 sec_types = (0, c3)" and "read_all c3 1 = (0, chosen, c4)"
    and "hd chosen \<noteq> 1"
  shows "handshake cfg c = (False, close_conn c4)"
  using assms
  by (simp add: handshake_def version_recv_def security_offer_def security_choice_def)

lemma tick_unknown_type:
  assumes "sys_select c = (SelReady, c1)" and "sys_read c1 1 = (Ret [t], c2)"
    and "t \<notin> {0, 2, 3, 4, 5, 6}"
  shows "tick cfg fbmem ready c = (Break, ready, c2)"
proof -
  from assms(2,3) have "client_message ready c1 = (Break, ready, c2)"
    by (simp add: client_message_def Let_def)
  with assms(1) show ?thesis by (simp add: tick_def select_failed_def)
qed

lemma serve_client_ended:
  assumes "handshake cfg c = (True, c1)" and "malloc_ok c1"
    and "session_loop n cfg fbmem False c1 = (Ended, ready, c2)"
  shows "serve_client n cfg fbmem c = (Ended, close_conn c2)"
  using assms by (simp add: serve_client_def)

text \<open>The way the inner loops are left is not looked at by what follows them.\<close>

lemma set_encodings_exit_ignored:
  assumes "sys_read c 1 = (Ret [2], c1)" and "read_all c1 1 = (0, pad, c2)"
    and "read_all c2 2 = (0, count, c3)" and "set_encodings_loop c3 (ntoh count) = (ex, c4)"
  shows "client_message ready c = (Continue, ready, c4)"
  using assms by (simp add: client_message_def)

lemma cut_text_exit_ignored:
  assumes "sys_read c 1 = (Ret [6], c1)" and "read_all c1 3 = (0, pad3, c2)"
    and "read_all c2 4 = (0, len, c3)" and "cut_text_loop c3 (ntoh len) = (ex, c4)"
  shows "client_message ready c = (Continue, ready, c4)"
  using assms by (simp add: client_message_def)

lemma scanline_exit_ignored:
  assumes "write_all c fbup_header = (0, c1)"
    and "write_any c1 [be16 0, be16 0, be16 (of_nat (width cfg)), be16 (of_nat (height cfg)),
           be32 0] = (False, c2)"
    and "send_scanlines cfg fbmem c2 [0..<height cfg] = (Some ex, c3)"
  shows "send_frame cfg fbmem c = (Continue, msleep (frame_delay cfg) c3)"
  using assms by (simp add: send_frame_def del: write_any.simps)

lemma atoi_in_range:
  "- 2147483648 \<le> v \<Longrightarrow> v \<le> 2147483647 \<Longrightarrow> atoi v = v"
  by (simp add: atoi_def strtol_def sint_sbintrunc' signed_take_bit_int_eq_self)

lemma write_all_delivers:
  "(fst (write_all c buf) = 0) = delivers (wscript c) (length buf)"
proof (induction c buf rule: write_all.induct)
  case (1 c buf)
  show ?case
  proof (cases buf)
    case Nil
    then show ?thesis by (simp add: write_all.simps)
  next
    case (Cons b bs)
    then have ne: "buf \<noteq> []" by simp
    show ?thesis
    proof (cases "wscript c")
      case Nil
      with Cons show ?thesis by (simp add: write_all.simps [of c] sys_write_def)
    next
      case (Cons w ws)
      note scr = this
      show ?thesis
      proof (cases w)
        case (WFail e)
        let ?c1 = "emit (EvWriteFail e) (c\<lparr>wscript := ws\<rparr>)"
        have sw: "sys_write c buf = (Errno e, ?c1)"
          using scr WFail by (simp add: sys_write_def)
        show ?thesis
        proof (cases "e = EINTR")
          case True
          from "1.IH"(2) [OF ne sw [symmetric] refl True]
          have "(fst (write_all ?c1 buf) = 0) = delivers ws (length buf)"
            by (simp add: emit_def)
          with True sw ne scr WFail \<open>buf = b # bs\<close> show ?thesis
            by (simp add: write_all.simps [of c])
        next
          case False
          with sw ne scr WFail \<open>buf = b # bs\<close> show ?thesis
            by (simp add: write_all.simps [of c])
        qed
      next
        case (WAccept k)
        let ?n = "min k (length buf)"
        let ?c1 = "emit (EvWrite (take k buf)) (c\<lparr>wscript := ws\<rparr>)"
        have sw: "sys_write c buf = (Ret ?n, ?c1)"
          using scr WAccept by (simp add: sys_write_def)
        show ?thesis
        proof (cases "k = 0")
          case True
          with sw ne scr WAccept \<open>buf = b # bs\<close> show ?thesis
            by (simp add: write_all.simps [of c])
        next
          case False
          with ne have nz: "?n \<noteq> 0" by simp
          have m: "length buf - min k (length buf) = length buf - k"
            by (simp add: min_def)
          from "1.IH"(1) [OF ne sw [symmetric] refl nz]
          have "(fst (write_all ?c1 (drop ?n buf)) = 0) = delivers ws (length buf - k)"
            by (simp add: emit_def m)
          with False nz sw ne scr WAccept \<open>buf = b # bs\<close> show ?thesis
            by (simp add: write_all.simps [of c])
        qed
      qed
    qed
  qed
qed

lemma read_all_supplies:
  "(fst (read_all c len) = 0) = supplies (rscript c) len \<and>
   prefix (fst (snd (read_all c len))) (incoming (rscript c))"
proof (induction c len rule: read_all.induct)
  case (1 c len)
  show ?case
  proof (cases len)
    case 0
    then show ?thesis by (simp add: read_all.simps)
  next
    case (Suc n)
    then have ne: "len \<noteq> 0" by simp
    show ?thesis
    proof (cases "rscript c")
      case Nil
      with Suc show ?thesis by (simp add: read_all.simps [of c] sys_read_def)
    next
      case (Cons x rs)
      note scr = this
      show ?thesis
      proof (cases x)
        case REof
        with scr Suc show ?thesis by (simp add: read_all.simps [of c] sys_read_def)
      next
        case (RFail e)
        let ?c1 = "emit (EvReadFail e) (c\<lparr>rscript := rs\<rparr>)"
        have sr: "sys_read c len = (Errno e, ?c1)"
          using scr RFail by (simp add: sys_read_def)
        show ?thesis
        proof (cases "e = EINTR")
          case True
          from "1.IH"(2) [OF ne sr [symmetric] refl True]
          have "(fst (read_all ?c1 len) = 0) = supplies rs len \<and>
            prefix (fst (snd (read_all ?c1 len))) (incoming rs)"
            by (simp add: emit_def)
          with True sr ne scr RFail Suc show ?thesis
            by (simp add: read_all.simps [of c])
        next
          case False
          with sr ne scr RFail Suc show ?thesis
            by (simp add: read_all.simps [of c])
        qed
      next
        case (RData d)
        let ?bs = "take len d"
        let ?c1 = "emit (EvRead ?bs)
          (c\<lparr>rscript := (if drop len d = [] then rs else RData (drop len d) # rs)\<rparr>)"
        have sr: "sys_read c len = (Ret ?bs, ?c1)"
          using scr RData by (simp add: sys_read_def)
        show ?thesis
        proof (cases "d = []")
          case True
          with sr ne scr RData Suc show ?thesis
            by (simp add: read_all.simps [of c])
        next
          case False
          with ne have nz: "length ?bs \<noteq> 0" by simp
          obtain r rest c2 where ra: "read_all ?c1 (len - length ?bs) = (r, rest, c2)"
            by (cases "read_all ?c1 (len - length ?bs)")
          from "1.IH"(1) [OF ne sr [symmetric] refl nz] ra
          have ih: "(r = 0) = supplies (rscript ?c1) (len - length ?bs)"
            "prefix rest (incoming (rscript ?c1))"
            by simp_all
          have res: "read_all c len = (r, ?bs @ rest, c2)"
            using sr ne nz ra by (simp add: read_all.simps [of c])
          show ?thesis
          proof (cases "length d < len")
            case True
            then have "drop len d = []" "?bs = d" by simp_all
            with ih have "(r = 0) = supplies rs (len - length d)" "prefix rest (incoming rs)"
              by (simp_all add: emit_def)
            with res scr RData False Suc \<open>?bs = d\<close> show ?thesis by simp
          next
            case ge: False
            then have z: "len - length ?bs = 0" by simp
            with ra have "r = 0" "rest = []" by (simp_all add: read_all.simps)
            moreover have "prefix ?bs (d @ incoming rs)"
              by (metis append_take_drop_id prefixI prefix_prefix)
            ultimately show ?thesis using res scr RData False Suc ge by simp
          qed
        qed
      qed
    qed
  qed
qed

lemma drop_min_length: "drop (min k (length xs)) xs = drop k xs"
  by (simp add: min_def)

section \<open>The claims\<close>

text \<open>
  Claim C9. \<open>write_all\<close> and \<open>read_all\<close> are all-or-nothing. Each returns only the status
  \<open>0\<close> or \<open>-1\<close>. \<open>write_all\<close> returns \<open>0\<close> exactly when the outcomes to come let the whole
  buffer out, in however many pieces and with however many interrupted calls in between;
  it has then put exactly the buffer on the wire, and otherwise a proper prefix of it.
  \<open>read_all\<close> returns \<open>0\<close> exactly when the outcomes to come bring in the requested number
  of bytes; it has then taken exactly that many, the first bytes of what comes in, and
  otherwise fewer. In any state of the loop with bytes outstanding: a call that moves
  some of the bytes is followed by the same operation on the rest, a call interrupted by
  \<^verbatim>\<open>EINTR\<close> is made again with the same arguments, any other error of \<^verbatim>\<open>write\<close> or
  \<^verbatim>\<open>read\<close> ends the operation with \<open>-1\<close>, and so does a \<^verbatim>\<open>write\<close> that takes no byte and
  a \<^verbatim>\<open>read\<close> at end of stream. No count of bytes is handed back: after a failure the
  caller's buffer holds fewer bytes than requested, and the status alone says so.
\<close>

theorem reliable_channel_all_or_nothing:
  "(case write_all c buf of
      (r, c') \<Rightarrow> (r = 0 \<or> r = -1) \<and> (r = 0) = delivers (wscript c) (length buf) \<and>
        (\<exists>p. sent c' = sent c @ p \<and> prefix p buf \<and> (r = 0) = (p = buf))) \<and>
   (case read_all c len of
      (r, got, c') \<Rightarrow> (r = 0 \<or> r = -1) \<and> (r = 0) = supplies (rscript c) len \<and>
        received c' = received c @ got \<and> prefix got (incoming (rscript c)) \<and>
        length got \<le> len \<and> (r = 0) = (length got = len)) \<and>
   write_all (c\<lparr>wscript := WAccept (Suc k) # ws\<rparr>) (b # bs) =
     write_all (emit (EvWrite (take (Suc k) (b # bs))) (c\<lparr>wscript := ws\<rparr>))
       (drop (Suc k) (b # bs)) \<and>
   read_all (c\<lparr>rscript := RData (d # ds) # rs\<rparr>) (Suc n) =
     (case read_all
        (emit (EvRead (take (Suc n) (d # ds)))
           (c\<lparr>rscript := (if drop (Suc n) (d # ds) = [] then rs
                           else RData (drop (Suc n) (d # ds)) # rs)\<rparr>))
        (Suc n - length (take (Suc n) (d # ds))) of
        (r, rest, c'') \<Rightarrow> (r, take (Suc n) (d # ds) @ rest, c'')) \<and>
   write_all (c\<lparr>wscript := WFail e # ws\<rparr>) (b # bs) =
     (if e = EINTR then write_all (emit (EvWriteFail EINTR) (c\<lparr>wscript := ws\<rparr>)) (b # bs)
      else (-1, emit (EvWriteFail e) (c\<lparr>wscript := ws\<rparr>))) \<and>
   write_all (c\<lparr>wscript := WAccept 0 # ws\<rparr>) (b # bs) =
     (-1, emit (EvWrite []) (c\<lparr>wscript := ws\<rparr>)) \<and>
   read_all (c\<lparr>rscript := RFail e # rs\<rparr>) (Suc n) =
     (if e = EINTR then read_all (emit (EvReadFail EINTR) (c\<lparr>rscript := rs\<rparr>)) (Suc n)
      else (-1, [], emit (EvReadFail e) (c\<lparr>rscript := rs\<rparr>))) \<and>
   read_all (c\<lparr>rscript := REof # rs\<rparr>) (Suc n) =
     (-1, [], emit (EvRead []) (c\<lparr>rscript := rs\<rparr>))"
proof -
  have w: "case write_all c buf of
      (r, c') \<Rightarrow> (r = 0 \<or> r = -1) \<and> (r = 0) = delivers (wscript c) (length buf) \<and>
        (\<exists>p. sent c' = sent c @ p \<and> prefix p buf \<and> (r = 0) = (p = buf))"
    using write_all_sent [of c buf] write_all_delivers [of c buf]
    by (cases "write_all c buf") auto
  have r: "case read_all c len of
      (r, got, c') \<Rightarrow> (r = 0 \<or> r = -1) \<and> (r = 0) = supplies (rscript c) len \<and>
        received c' = received c @ got \<and> prefix got (incoming (rscript c)) \<and>
        length got \<le> len \<and> (r = 0) = (length got = len)"
    using read_all_received [of c len] read_all_supplies [of c len]
    by (cases "read_all c len") auto
  have wc: "write_all (c\<lparr>wscript := WAccept (Suc k) # ws\<rparr>) (b # bs) =
     write_all (emit (EvWrite (take (Suc k) (b # bs))) (c\<lparr>wscript := ws\<rparr>))
       (drop (Suc k) (b # bs))"
    by (simp add: write_all.simps [of "c\<lparr>wscript := WAccept (Suc k) # ws\<rparr>"] sys_write_def
        emit_def drop_min_length)
  have rc: "read_all (c\<lparr>rscript := RData (d # ds) # rs\<rparr>) (Suc n) =
     (case read_all
        (emit (EvRead (take (Suc n) (d # ds)))
           (c\<lparr>rscript := (if drop (Suc n) (d # ds) = [] then rs
                           else RData (drop (Suc n) (d # ds)) # rs)\<rparr>))
        (Suc n - length (take (Suc n) (d # ds))) of
        (r, rest, c'') \<Rightarrow> (r, take (Suc n) (d # ds) @ rest, c''))"
    by (simp add: read_all.simps [of "c\<lparr>rscript := RData (d # ds) # rs\<rparr>"] sys_read_def
        emit_def)
  have we: "write_all (c\<lparr>wscript := WFail e # ws\<rparr>) (b # bs) =
     (if e = EINTR then write_all (emit (EvWriteFail EINTR) (c\<lparr>wscript := ws\<rparr>)) (b # bs)
      else (-1, emit (EvWriteFail e) (c\<lparr>wscript := ws\<rparr>)))"
    by (simp add: write_all.simps [of "c\<lparr>wscript := WFail e # ws\<rparr>"] sys_write_def emit_def)
  have wz: "write_all (c\<lparr>wscript := WAccept 0 # ws\<rparr>) (b # bs) =
     (-1, emit (EvWrite []) (c\<lparr>wscript := ws\<rparr>))"
    by (simp add: write_all.simps [of "c\<lparr>wscript := WAccept 0 # ws\<rparr>"] sys_write_def emit_def)
  have re: "read_all (c\<lparr>rscript := RFail e # rs\<rparr>) (Suc n) =
     (if e = EINTR then read_all (emit (EvReadFail EINTR) (c\<lparr>rscript := rs\<rparr>)) (Suc n)
      else (-1, [], emit (EvReadFail e) (c\<lparr>rscript := rs\<rparr>)))"
    by (simp add: read_all.simps [of "c\<lparr>rscript := RFail e # rs\<rparr>"] sys_read_def emit_def)
  have rz: "read_all (c\<lparr>rscript := REof # rs\<rparr>) (Suc n) =
     (-1, [], emit (EvRead []) (c\<lparr>rscript := rs\<rparr>))"
    by (simp add: read_all.simps [of "c\<lparr>rscript := REof # rs\<rparr>"] sys_read_def emit_def)
  from w r wc rc we wz re rz show ?thesis by blast
qed

theorem reliable_channel_all_or_nothing_witness:
  "write_all piecewise rfb_version =
     (0, piecewise\<lparr>wscript := [],
        trace := [EvWrite [82, 70, 66, 32, 48], EvWriteFail EINTR,
          EvWrite [48, 51, 46, 48, 48, 56, 10]]\<rparr>) \<and>
   delivers (wscript piecewise) (length rfb_version) \<and>
   sent (snd (write_all piecewise rfb_version)) = rfb_version \<and>
   read_all piecewise 12 =
     (0, [1, 2, 3, 4, 5, 6, 7, 8, 9, 10, 11, 12],
      piecewise\<lparr>rscript := [RData [13, 14, 15, 16]],
        trace := [EvRead [1, 2, 3], EvReadFail EINTR,
          EvRead [4, 5, 6, 7, 8, 9, 10, 11, 12]]\<rparr>) \<and>
   supplies (rscript piecewise) 12 \<and>
   write_all cut_short rfb_version =
     (-1, cut_short\<lparr>wscript := [],
        trace := [EvWrite [82, 70, 66, 32, 48], EvWriteFail ECONNRESET]\<rparr>) \<and>
   \<not> delivers (wscript cut_short) (length rfb_version) \<and>
   read_all cut_short 19 =
     (-1, [1, 2], cut_short\<lparr>rscript := [], trace := [EvRead [1, 2], EvRead []]\<rparr>) \<and>
   \<not> supplies (rscript cut_short) 19"
proof -
  have a: "write_all piecewise rfb_version =
     (0, piecewise\<lparr>wscript := [],
        trace := [EvWrite [82, 70, 66, 32, 48], EvWriteFail EINTR,
          EvWrite [48, 51, 46, 48, 48, 56, 10]]\<rparr>)" by code_simp
  have b: "read_all piecewise 12 =
     (0, [1, 2, 3, 4, 5, 6, 7, 8, 9, 10, 11, 12],
      piecewise\<lparr>rscript := [RData [13, 14, 15, 16]],
        trace := [EvRead [1, 2, 3], EvReadFail EINTR,
          EvRead [4, 5, 6, 7, 8, 9, 10, 11, 12]]\<rparr>)" by code_simp
  have d: "write_all cut_short rfb_version =
     (-1, cut_short\<lparr>wscript := [],
        trace := [EvWrite [82, 70, 66, 32, 48], EvWriteFail ECONNRESET]\<rparr>)" by code_simp
  have e: "read_all cut_short 19 =
     (-1, [1, 2], cut_short\<lparr>rscript := [], trace := [EvRead [1, 2], EvRead []]\<rparr>)"
    by code_simp
  have s: "sent piecewise = []" by code_simp
  note T1 = reliable_channel_all_or_nothing [of piecewise rfb_version 12, THEN conjunct1]
  note T2 = reliable_channel_all_or_nothing [of piecewise rfb_version 12,
      THEN conjunct2, THEN conjunct1]
  note T3 = reliable_channel_all_or_nothing [of cut_short rfb_version 19, THEN conjunct1]
  note T4 = reliable_channel_all_or_nothing [of cut_short rfb_version 19,
      THEN conjunct2, THEN conjunct1]
  from T1 a s have k1: "delivers (wscript piecewise) (length rfb_version)"
    "sent (snd (write_all piecewise rfb_version)) = rfb_version" by auto
  from T2 b have k2: "supplies (rscript piecewise) 12" by simp
  from T3 d have k3: "\<not> delivers (wscript cut_short) (length rfb_version)" by simp
  from T4 e have k4: "\<not> supplies (rscript cut_short) 19" by simp
  from a b d e k1 k2 k3 k4 show ?thesis by blast
qed

text \<open>
  Claim C7, as amended. The rate the server runs with is the clamp to \<open>1 .. 15\<close> of what
  \<^verbatim>\<open>atoi\<close> makes of the text of \<^verbatim>\<open>--fps\<close>. For every value that fits a 32-bit \<^verbatim>\<open>int\<close>
  this is the clamp of the value itself: \<open>1\<close> for a value of \<open>0\<close> or less, \<open>15\<close> for a
  value above \<open>15\<close>. The argument of the sleep that ends a transmitted frame is \<open>1000\<close>
  divided by the rate, in whole milliseconds. Without the option the rate is \<open>3\<close>.
\<close>

theorem fps_clamp_and_frame_delay:
  "startup (Some v) xres yres bpp line_length = Inr cfg \<Longrightarrow>
     fps cfg = (if atoi v \<le> 0 then 1 else if atoi v > 15 then 15 else atoi v) \<and>
     (- 2147483648 \<le> v \<and> v \<le> 2147483647 \<longrightarrow>
        fps cfg = (if v \<le> 0 then 1 else if v > 15 then 15 else v)) \<and>
     1 \<le> fps cfg \<and> fps cfg \<le> 15 \<and>
     frame_delay cfg = 1000 div fps cfg \<and>
     (\<forall>fbmem c c'. send_frame cfg fbmem c = (Continue, c') \<longrightarrow>
        sleeps c' = sleeps c @ [1000 div fps cfg]) \<and>
     (\<forall>cfg0. startup None xres yres bpp line_length = Inr cfg0 \<longrightarrow> fps cfg0 = 3)"
proof -
  assume "startup (Some v) xres yres bpp line_length = Inr cfg"
  then have f: "fps cfg = clamp_fps (atoi v)"
    by (auto simp: startup_def Let_def split: if_splits)
  have r: "1 \<le> fps cfg \<and> fps cfg \<le> 15" using clamp_fps_range [of "atoi v"] f by simp
  have a: "fps cfg = (if atoi v \<le> 0 then 1 else if atoi v > 15 then 15 else atoi v)"
    unfolding f by (simp add: clamp_fps_def Let_def)
  have i: "fps cfg = (if v \<le> 0 then 1 else if v > 15 then 15 else v)"
    if "- 2147483648 \<le> v \<and> v \<le> 2147483647"
    using a atoi_in_range [of v] that by simp
  have d: "frame_delay cfg = 1000 div fps cfg"
    using r by (simp add: frame_delay_def c_div_pos)
  have s: "sleeps c' = sleeps c @ [1000 div fps cfg]"
    if "send_frame cfg fbmem c = (Continue, c')" for fbmem c c'
    using send_frame_sleeps [OF that] d by simp
  have n: "fps cfg0 = 3" if "startup None xres yres bpp line_length = Inr cfg0" for cfg0
    using that by (auto simp: startup_def clamp_fps_def Let_def split: if_splits)
  from a i r d s n show ?thesis by blast
qed

theorem fps_clamp_and_frame_delay_witness:
  "startup (Some 99) 1 1 32 4 = Inr \<lparr>width = 1, height = 1, stride = 4, fps = 15\<rparr> \<and>
   startup (Some 0) 1 1 32 4 = Inr \<lparr>width = 1, height = 1, stride = 4, fps = 1\<rparr> \<and>
   startup (Some 7) 1 1 32 4 = Inr \<lparr>width = 1, height = 1, stride = 4, fps = 7\<rparr> \<and>
   startup None 1 1 32 4 = Inr \<lparr>width = 1, height = 1, stride = 4, fps = 3\<rparr> \<and>
   - 2147483648 \<le> (99 :: int) \<and> (99 :: int) \<le> 2147483647 \<and>
   frame_delay \<lparr>width = 1, height = 1, stride = 4, fps = 15\<rparr> = 66 \<and>
   send_frame \<lparr>width = 1, height = 1, stride = 4, fps = 15\<rparr> [1, 2, 3, 4]
     \<lparr>wscript = replicate 7 (WAccept 16), rscript = [], sscript = [], malloc_ok = True, trace = []\<rparr> =
     (Continue,
      \<lparr>wscript = [], rscript = [], sscript = [], malloc_ok = True,
        trace = [EvWrite [0, 0, 0, 1], EvWrite [0, 0], EvWrite [0, 0], EvWrite [0, 1],
          EvWrite [0, 1], EvWrite [0, 0, 0, 0], EvWrite [1, 2, 3, 4], EvSleep 66]\<rparr>) \<and>
   sleeps \<lparr>wscript = [], rscript = [], sscript = [], malloc_ok = True,
        trace = [EvWrite [0, 0, 0, 1], EvWrite [0, 0], EvWrite [0, 0], EvWrite [0, 1],
          EvWrite [0, 1], EvWrite [0, 0, 0, 0], EvWrite [1, 2, 3, 4], EvSleep 66]\<rparr> = [66]"
proof -
  have s: "startup (Some 99) 1 1 32 4 = Inr \<lparr>width = 1, height = 1, stride = 4, fps = 15\<rparr>"
    by (simp add: startup_def clamp_fps_def atoi_def strtol_def)
  have s0: "startup (Some 0) 1 1 32 4 = Inr \<lparr>width = 1, height = 1, stride = 4, fps = 1\<rparr>"
    by (simp add: startup_def clamp_fps_def atoi_def strtol_def)
  have s7: "startup (Some 7) 1 1 32 4 = Inr \<lparr>width = 1, height = 1, stride = 4, fps = 7\<rparr>"
    by (simp add: startup_def clamp_fps_def atoi_def strtol_def)
  have sn: "startup None 1 1 32 4 = Inr \<lparr>width = 1, height = 1, stride = 4, fps = 3\<rparr>"
    by (simp add: startup_def clamp_fps_def)
  have g: "- 2147483648 \<le> (99 :: int) \<and> (99 :: int) \<le> 2147483647" by simp
  have f: "send_frame \<lparr>width = 1, height = 1, stride = 4, fps = 15\<rparr> [1, 2, 3, 4]
     \<lparr>wscript = replicate 7 (WAccept 16), rscript = [], sscript = [], malloc_ok = True, trace = []\<rparr> =
     (Continue,
      \<lparr>wscript = [], rscript = [], sscript = [], malloc_ok = True,
        trace = [EvWrite [0, 0, 0, 1], EvWrite [0, 0], EvWrite [0, 0], EvWrite [0, 1],
          EvWrite [0, 1], EvWrite [0, 0, 0, 0], EvWrite [1, 2, 3, 4], EvSleep 66]\<rparr>)"
    by code_simp
  from fps_clamp_and_frame_delay [OF s] s s0 s7 sn g f show ?thesis
    by (simp add: sleeps_def proj_def)
qed

text \<open>
  Claim C7, as stated, on a value beyond the range of \<^verbatim>\<open>int\<close>: \<^verbatim>\<open>--fps 4294967303\<close>
  gives the rate \<open>7\<close> and a sleep of 142 ms, where the clamp of the value is \<open>15\<close>.
\<close>

theorem fps_beyond_int_counterexample:
  "startup (Some 4294967303) 480 544 32 1920 =
     Inr \<lparr>width = 480, height = 544, stride = 1920, fps = 7\<rparr> \<and>
   (7 :: int) \<noteq> max 1 (min 15 4294967303) \<and>
   frame_delay \<lparr>width = 480, height = 544, stride = 1920, fps = 7\<rparr> = 142 \<and>
   (142 :: int) \<noteq> 1000 div max 1 (min 15 4294967303)"
  by (simp add: startup_def clamp_fps_def atoi_def strtol_def frame_delay_def c_div_def)

text \<open>
  Claim C2. Let the stride be at least \<open>width * 4\<close> and the mapped framebuffer hold
  \<open>stride * height\<close> bytes. Then the buffer handed to \<open>write_all\<close> for row \<open>y\<close> is exactly
  the \<open>width * 4\<close> bytes at offsets \<open>y * stride\<close>, \<open>y * stride + 1\<close>, ... of the
  framebuffer, no copy reads outside the mapping, and the rows go out in the order
  \<open>0, ..., height - 1\<close>: the bytes put on the wire by the scanline loop are a prefix of
  \<open>frame_pixels\<close>, which has \<open>height * width * 4\<close> bytes and holds no byte of the padding
  between \<open>width * 4\<close> and the stride, and they are all of it when the loop runs to its
  end.
\<close>

theorem scanlines_skip_padding:
  assumes "width cfg * 4 \<le> stride cfg" and "stride cfg * height cfg \<le> length fbmem"
    and "send_scanlines cfg fbmem c [0..<height cfg] = (ex, c')"
  shows "(\<forall>y<height cfg. scanline cfg fbmem y =
            Some (map (\<lambda>i. fbmem ! (y * stride cfg + i)) [0..<width cfg * 4])) \<and>
         length (frame_pixels cfg fbmem) = height cfg * width cfg * 4 \<and>
         ex \<noteq> None \<and>
         (\<exists>p. sent c' = sent c @ p \<and> prefix p (frame_pixels cfg fbmem) \<and>
            (ex = Some Completed \<longrightarrow> p = frame_pixels cfg fbmem))"
proof -
  let ?row = "\<lambda>y. map (\<lambda>i. fbmem ! (y * stride cfg + i)) [0..<width cfg * 4]"
  have rows: "scanline cfg fbmem y = Some (?row y)" if "y < height cfg" for y
    using scanline_in_range [OF assms(1,2) that] .
  have "scanline cfg fbmem y = Some (?row y)" if "y \<in> set [0..<height cfg]" for y
    using rows that by simp
  from send_scanlines_sent [OF assms(3) this]
  have "ex \<noteq> None \<and> (\<exists>p. sent c' = sent c @ p \<and> prefix p (frame_pixels cfg fbmem) \<and>
            (ex = Some Completed \<longrightarrow> p = frame_pixels cfg fbmem))"
    by (simp add: frame_pixels_def)
  with rows length_frame_pixels show ?thesis by blast
qed

theorem scanlines_skip_padding_witness:
  "width \<lparr>width = 1, height = 2, stride = 6, fps = 3\<rparr> * 4 \<le> stride \<lparr>width = 1, height = 2, stride = 6, fps = 3\<rparr> \<and>
   stride \<lparr>width = 1, height = 2, stride = 6, fps = 3\<rparr> * height \<lparr>width = 1, height = 2, stride = 6, fps = 3\<rparr>
     \<le> length [1, 2, 3, 4, 5, 6, 7, 8, 9, 10, 11, 12 :: byte] \<and>
   send_scanlines \<lparr>width = 1, height = 2, stride = 6, fps = 3\<rparr> [1, 2, 3, 4, 5, 6, 7, 8, 9, 10, 11, 12]
     \<lparr>wscript = [WAccept 3, WAccept 9, WAccept 4], rscript = [], sscript = [], malloc_ok = True, trace = []\<rparr>
     [0..<height \<lparr>width = 1, height = 2, stride = 6, fps = 3\<rparr>] =
     (Some Completed,
      \<lparr>wscript = [], rscript = [], sscript = [], malloc_ok = True,
        trace = [EvWrite [1, 2, 3], EvWrite [4], EvWrite [7, 8, 9, 10]]\<rparr>) \<and>
   frame_pixels \<lparr>width = 1, height = 2, stride = 6, fps = 3\<rparr> [1, 2, 3, 4, 5, 6, 7, 8, 9, 10, 11, 12] =
     [1, 2, 3, 4, 7, 8, 9, 10] \<and>
   sent \<lparr>wscript = [], rscript = [], sscript = [], malloc_ok = True,
        trace = [EvWrite [1, 2, 3], EvWrite [4], EvWrite [7, 8, 9, 10]]\<rparr> = [1, 2, 3, 4, 7, 8, 9, 10]"
proof -
  let ?cfg = "\<lparr>width = 1, height = 2, stride = 6, fps = 3\<rparr>"
  let ?fb = "[1, 2, 3, 4, 5, 6, 7, 8, 9, 10, 11, 12 :: byte]"
  have g: "width ?cfg * 4 \<le> stride ?cfg" by simp
  have m: "stride ?cfg * height ?cfg \<le> length ?fb" by simp
  have s: "send_scanlines ?cfg ?fb
     \<lparr>wscript = [WAccept 3, WAccept 9, WAccept 4], rscript = [], sscript = [], malloc_ok = True, trace = []\<rparr>
     [0..<height ?cfg] =
     (Some Completed,
      \<lparr>wscript = [], rscript = [], sscript = [], malloc_ok = True,
        trace = [EvWrite [1, 2, 3], EvWrite [4], EvWrite [7, 8, 9, 10]]\<rparr>)"
    by code_simp
  have p: "frame_pixels ?cfg ?fb = [1, 2, 3, 4, 7, 8, 9, 10]"
    by code_simp
  from scanlines_skip_padding [OF g m s] g m s p show ?thesis
    by (simp add: sent_def proj_def)
qed

text \<open>
  Claim C8. Take a session that starts not ready and is still not ready after \<open>n\<close>
  iterations of its loop, whatever the client has sent meanwhile. Then over these
  iterations the server has made no call of \<^verbatim>\<open>write\<close> at all, so no FramebufferUpdate has
  gone out, and all it has slept are sleeps of 50 ms, at most one per iteration. One such
  iteration makes exactly one poll and then, unless it ends the session, one sleep of
  50 ms. A message of any type other than 3 leaves the session not ready.
\<close>

theorem no_frames_until_ready:
  assumes "session_loop n cfg fbmem False c = (st, False, c')"
  shows "sent c' = sent c \<and> write_calls c' = write_calls c \<and>
         (\<exists>m\<le>n. sleeps c' = sleeps c @ replicate m 50) \<and>
         length (polls c') \<le> length (polls c) + n \<and>
         (\<forall>k c1. tick cfg fbmem False c = (k, False, c1) \<longrightarrow>
            others c1 = others c @
              EvSelect (fst (sys_select c)) # (if k = Continue then [EvSleep 50] else [])) \<and>
         (\<forall>t c1 k ready' c2. sys_read c 1 = (Ret [t], c1) \<and> t \<noteq> 3 \<and>
            client_message False c = (k, ready', c2) \<longrightarrow> \<not> ready')"
proof -
  note l = session_loop_not_ready [OF assms]
  have t: "others c1 = others c @
      EvSelect (fst (sys_select c)) # (if k = Continue then [EvSleep 50] else [])"
    if "tick cfg fbmem False c = (k, False, c1)" for k c1
    using tick_not_ready [OF that] by simp
  have m: "\<not> ready'"
    if "sys_read c 1 = (Ret [t], c1) \<and> t \<noteq> 3 \<and> client_message False c = (k, ready', c2)"
    for t c1 k ready' c2
    using client_message_other_type [of c t c1 False k ready' c2] that by simp
  from l t m show ?thesis by blast
qed

theorem no_frames_until_ready_witness:
  "session_loop 3 \<lparr>width = 1, height = 1, stride = 4, fps = 3\<rparr> [1, 2, 3, 4] False
     \<lparr>wscript = [], rscript = [RData [5, 0, 0, 1, 0, 2]],
      sscript = [SelNone, SelReady, SelNone], malloc_ok = True, trace = []\<rparr> =
     (Running, False,
      \<lparr>wscript = [], rscript = [], sscript = [], malloc_ok = True,
        trace = [EvSelect SelNone, EvSleep 50, EvSelect SelReady, EvRead [5],
          EvRead [0, 0, 1, 0, 2], EvSleep 50, EvSelect SelNone, EvSleep 50]\<rparr>) \<and>
   sent \<lparr>wscript = [], rscript = [], sscript = [], malloc_ok = True,
        trace = [EvSelect SelNone, EvSleep 50, EvSelect SelReady, EvRead [5],
          EvRead [0, 0, 1, 0, 2], EvSleep 50, EvSelect SelNone, EvSleep 50]\<rparr> = [] \<and>
   tick \<lparr>width = 1, height = 1, stride = 4, fps = 3\<rparr> [1, 2, 3, 4] False
     \<lparr>wscript = [], rscript = [RData [5, 0, 0, 1, 0, 2]],
      sscript = [SelNone, SelReady, SelNone], malloc_ok = True, trace = []\<rparr> =
     (Continue, False,
      \<lparr>wscript = [], rscript = [RData [5, 0, 0, 1, 0, 2]],
      sscript = [SelReady, SelNone], malloc_ok = True, trace = [EvSelect SelNone, EvSleep 50]\<rparr>) \<and>
   sys_read \<lparr>wscript = [], rscript = [RData [5, 0, 0, 1, 0, 2]],
      sscript = [SelNone, SelReady, SelNone], malloc_ok = True, trace = []\<rparr> 1 =
     (Ret [5], \<lparr>wscript = [], rscript = [RData [0, 0, 1, 0, 2]],
      sscript = [SelNone, SelReady, SelNone], malloc_ok = True, trace = [EvRead [5]]\<rparr>) \<and>
   client_message False \<lparr>wscript = [], rscript = [RData [5, 0, 0, 1, 0, 2]],
      sscript = [SelNone, SelReady, SelNone], malloc_ok = True, trace = []\<rparr> =
     (Continue, False, \<lparr>wscript = [], rscript = [],
      sscript = [SelNone, SelReady, SelNone], malloc_ok = True,
      trace = [EvRead [5], EvRead [0, 0, 1, 0, 2]]\<rparr>)"
proof -
  let ?cfg = "\<lparr>width = 1, height = 1, stride = 4, fps = 3\<rparr>"
  let ?c = "\<lparr>wscript = [], rscript = [RData [5, 0, 0, 1, 0, 2]],
      sscript = [SelNone, SelReady, SelNone], malloc_ok = True, trace = []\<rparr>"
  have l: "session_loop 3 ?cfg [1, 2, 3, 4] False ?c =
     (Running, False,
      \<lparr>wscript = [], rscript = [], sscript = [], malloc_ok = True,
        trace = [EvSelect SelNone, EvSleep 50, EvSelect SelReady, EvRead [5],
          EvRead [0, 0, 1, 0, 2], EvSleep 50, EvSelect SelNone, EvSleep 50]\<rparr>)"
    by code_simp
  have t: "tick ?cfg [1, 2, 3, 4] False ?c =
     (Continue, False,
      \<lparr>wscript = [], rscript = [RData [5, 0, 0, 1, 0, 2]],
      sscript = [SelReady, SelNone], malloc_ok = True, trace = [EvSelect SelNone, EvSleep 50]\<rparr>)"
    by code_simp
  have r: "sys_read ?c 1 =
     (Ret [5], \<lparr>wscript = [], rscript = [RData [0, 0, 1, 0, 2]],
      sscript = [SelNone, SelReady, SelNone], malloc_ok = True, trace = [EvRead [5]]\<rparr>)"
    by code_simp
  have m: "client_message False ?c =
     (Continue, False, \<lparr>wscript = [], rscript = [],
      sscript = [SelNone, SelReady, SelNone], malloc_ok = True,
      trace = [EvRead [5], EvRead [0, 0, 1, 0, 2]]\<rparr>)"
    by code_simp
  from no_frames_until_ready [OF l] l t r m show ?thesis
    by (simp add: sent_def proj_def)
qed

text \<open>
  Claim C5. The session loop is entered with the readiness flag false. A message of type 3
  whose nine payload bytes arrive sets the flag, whatever the incremental byte and the
  rectangle are. Once set the flag stays set: over any message, any iteration and any
  number of iterations. A FramebufferUpdateRequest processed by a session that is already
  ready leaves it exactly where the same request leaves a session that was not: ready,
  with the same connection state.
\<close>

theorem readiness_set_once:
  "(\<forall>c c1 n. handshake cfg c = (True, c1) \<and> malloc_ok c1 \<longrightarrow>
      serve_client n cfg fbmem c =
        (case session_loop n cfg fbmem False c1 of
           (Ended, ready, c2) \<Rightarrow> (Ended, close_conn c2)
         | (st, ready, c2) \<Rightarrow> (st, c2))) \<and>
   (\<forall>c c1 inc c2 c3. sys_read c 1 = (Ret [3], c1) \<and> read_all c1 1 = (0, inc, c2) \<and>
      read_any c2 [2, 2, 2, 2] = (False, c3) \<longrightarrow>
        client_message False c = (Continue, True, c3) \<and>
        client_message True c = (Continue, True, c3)) \<and>
   (\<forall>c k ready' c'. client_message True c = (k, ready', c') \<longrightarrow> ready') \<and>
   (\<forall>c k ready' c'. tick cfg fbmem True c = (k, ready', c') \<longrightarrow> ready') \<and>
   (\<forall>n c st ready' c'. session_loop n cfg fbmem True c = (st, ready', c') \<longrightarrow> ready')"
proof -
  have a: "serve_client n cfg fbmem c =
        (case session_loop n cfg fbmem False c1 of
           (Ended, ready, c2) \<Rightarrow> (Ended, close_conn c2)
         | (st, ready, c2) \<Rightarrow> (st, c2))"
    if "handshake cfg c = (True, c1) \<and> malloc_ok c1" for c c1 n
    using that by (simp add: serve_client_def)
  have b: "client_message False c = (Continue, True, c3) \<and>
      client_message True c = (Continue, True, c3)"
    if "sys_read c 1 = (Ret [3], c1) \<and> read_all c1 1 = (0, inc, c2) \<and>
    read_any c2 [2, 2, 2, 2] = (False, c3)" for c c1 inc c2 c3
    using that client_message_request [of c c1 inc c2 c3] by simp
  have d: ready' if "client_message True c = (k, ready', c')" for c k ready' c'
    using client_message_flag [OF that] by simp
  have e: ready' if "tick cfg fbmem True c = (k, ready', c')" for c k ready' c'
    using tick_flag [OF that] .
  have f: ready' if "session_loop n cfg fbmem True c = (st, ready', c')" for n c st ready' c'
    using session_loop_flag [OF that] .
  from a b d e f show ?thesis by blast
qed

theorem readiness_set_once_witness:
  "fst (handshake demo_cfg viewer) \<and> malloc_ok (snd (handshake demo_cfg viewer)) \<and>
   serve_client 2 demo_cfg demo_fb viewer =
     (case session_loop 2 demo_cfg demo_fb False (snd (handshake demo_cfg viewer)) of
        (Ended, ready, c2) \<Rightarrow> (Ended, close_conn c2)
      | (st, ready, c2) \<Rightarrow> (st, c2)) \<and>
   fst (sys_read two_requests 1) = Ret [3] \<and>
   client_message False two_requests =
     (Continue, True, two_requests\<lparr>rscript := [RData [3, 1, 0, 0, 0, 0, 0, 1, 0, 1]],
        trace := [EvRead [3], EvRead [0], EvRead [0, 0], EvRead [0, 0], EvRead [0, 1],
          EvRead [0, 1]]\<rparr>) \<and>
   client_message True two_requests = client_message False two_requests \<and>
   fst (snd (tick demo_cfg demo_fb True two_requests)) \<and>
   fst (snd (session_loop 2 demo_cfg demo_fb True two_requests))"
proof -
  note T = readiness_set_once [of demo_cfg demo_fb]
  note Ta = T [THEN conjunct1, rule_format]
  note Tb = T [THEN conjunct2, THEN conjunct1, rule_format]
  note Td = T [THEN conjunct2, THEN conjunct2, THEN conjunct2, THEN conjunct1, rule_format]
  note Te = T [THEN conjunct2, THEN conjunct2, THEN conjunct2, THEN conjunct2, rule_format]
  define c1 where "c1 = snd (sys_read two_requests 1)"
  define c2 where "c2 = snd (snd (read_all c1 1))"
  define c3 where "c3 = snd (read_any c2 [2, 2, 2, 2])"
  have h1: "fst (handshake demo_cfg viewer)" by code_simp
  have h2: "malloc_ok (snd (handshake demo_cfg viewer))" by code_simp
  from h1 have "handshake demo_cfg viewer = (True, snd (handshake demo_cfg viewer))"
    by (cases "handshake demo_cfg viewer") simp
  with h2 have h: "handshake demo_cfg viewer = (True, snd (handshake demo_cfg viewer)) \<and>
     malloc_ok (snd (handshake demo_cfg viewer))" by blast
  have r0: "fst (sys_read two_requests 1) = Ret [3]" by code_simp
  have r1: "sys_read two_requests 1 = (Ret [3], c1)"
    unfolding c1_def by code_simp
  have r2: "read_all c1 1 = (0, [0], c2)"
    unfolding c2_def c1_def by code_simp
  have r3: "read_any c2 [2, 2, 2, 2] = (False, c3)"
    unfolding c3_def c2_def c1_def by code_simp
  have e: "c3 = two_requests\<lparr>rscript := [RData [3, 1, 0, 0, 0, 0, 0, 1, 0, 1]],
        trace := [EvRead [3], EvRead [0], EvRead [0, 0], EvRead [0, 0], EvRead [0, 1],
          EvRead [0, 1]]\<rparr>"
    unfolding c3_def c2_def c1_def by code_simp
  have a: "serve_client 2 demo_cfg demo_fb viewer =
     (case session_loop 2 demo_cfg demo_fb False (snd (handshake demo_cfg viewer)) of
        (Ended, ready, c2) \<Rightarrow> (Ended, close_conn c2)
      | (st, ready, c2) \<Rightarrow> (st, c2))"
    using Ta [OF h] .
  have b: "client_message False two_requests = (Continue, True, c3) \<and>
        client_message True two_requests = (Continue, True, c3)"
    using Tb [of two_requests c1 "[0]" c2 c3] r1 r2 r3 by simp
  have t: "fst (snd (tick demo_cfg demo_fb True two_requests))"
    using Td [of two_requests "fst (tick demo_cfg demo_fb True two_requests)"
        "fst (snd (tick demo_cfg demo_fb True two_requests))"
        "snd (snd (tick demo_cfg demo_fb True two_requests))"] by simp
  have l: "fst (snd (session_loop 2 demo_cfg demo_fb True two_requests))"
    using Te [of 2 two_requests "fst (session_loop 2 demo_cfg demo_fb True two_requests)"
        "fst (snd (session_loop 2 demo_cfg demo_fb True two_requests))"
        "snd (snd (session_loop 2 demo_cfg demo_fb True two_requests))"] by simp
  from h1 h2 r0 a b e t l show ?thesis by simp
qed

text \<open>
  Claim C10. The message-type byte is read by one call of \<^verbatim>\<open>read\<close>. When the poll has
  reported the socket readable and that call gives anything but one byte, an error
  (\<^verbatim>\<open>EINTR\<close> included) or no byte at all, the iteration ends in \<^verbatim>\<open>break\<close> in the state the
  call has left, with nothing read again, written or slept, and the session loop is over.
  \<open>read_all\<close> on the same input makes the call again.
\<close>

theorem type_byte_read_not_retried:
  "(\<forall>c c1 x c2 n. sys_select c = (SelReady, c1) \<and> sys_read c1 1 = (x, c2) \<and>
      (\<forall>b. x \<noteq> Ret [b]) \<longrightarrow>
        tick cfg fbmem ready c = (Break, ready, c2) \<and>
        session_loop (Suc n) cfg fbmem ready c = (Ended, ready, c2)) \<and>
   sys_read (c\<lparr>rscript := RFail e # rs\<rparr>) 1 =
     (Errno e, emit (EvReadFail e) (c\<lparr>rscript := rs\<rparr>)) \<and>
   sys_read (c\<lparr>rscript := REof # rs\<rparr>) 1 = (Ret [], emit (EvRead []) (c\<lparr>rscript := rs\<rparr>)) \<and>
   read_all (c\<lparr>rscript := RFail EINTR # rs\<rparr>) 1 =
     read_all (emit (EvReadFail EINTR) (c\<lparr>rscript := rs\<rparr>)) 1"
proof -
  have a: "tick cfg fbmem ready c = (Break, ready, c2) \<and>
        session_loop (Suc n) cfg fbmem ready c = (Ended, ready, c2)"
    if "sys_select c = (SelReady, c1) \<and> sys_read c1 1 = (x, c2) \<and> (\<forall>b. x \<noteq> Ret [b])"
    for c c1 x c2 n
  proof -
    from that have "tick cfg fbmem ready c = (Break, ready, c2)"
      using tick_bad_type_read [of c c1 x c2 cfg fbmem ready] by blast
    then show ?thesis by simp
  qed
  have b: "sys_read (c\<lparr>rscript := RFail e # rs\<rparr>) 1 =
     (Errno e, emit (EvReadFail e) (c\<lparr>rscript := rs\<rparr>))"
    by (simp add: sys_read_def emit_def)
  have d: "sys_read (c\<lparr>rscript := REof # rs\<rparr>) 1 =
     (Ret [], emit (EvRead []) (c\<lparr>rscript := rs\<rparr>))"
    by (simp add: sys_read_def emit_def)
  have e: "read_all (c\<lparr>rscript := RFail EINTR # rs\<rparr>) 1 =
     read_all (emit (EvReadFail EINTR) (c\<lparr>rscript := rs\<rparr>)) 1"
    by (simp add: read_all.simps [of "c\<lparr>rscript := RFail EINTR # rs\<rparr>"] sys_read_def emit_def)
  from a b d e show ?thesis by blast
qed

theorem type_byte_read_not_retried_witness:
  "sys_select interrupted =
     (SelReady, interrupted\<lparr>sscript := [SelReady], trace := [EvSelect SelReady]\<rparr>) \<and>
   sys_read (interrupted\<lparr>sscript := [SelReady], trace := [EvSelect SelReady]\<rparr>) 1 =
     (Errno EINTR,
      interrupted\<lparr>rscript := [RData [3, 0, 0, 0, 0, 0, 0, 1, 0, 1]], sscript := [SelReady],
        trace := [EvSelect SelReady, EvReadFail EINTR]\<rparr>) \<and>
   tick demo_cfg demo_fb True interrupted =
     (Break, True,
      interrupted\<lparr>rscript := [RData [3, 0, 0, 0, 0, 0, 0, 1, 0, 1]], sscript := [SelReady],
        trace := [EvSelect SelReady, EvReadFail EINTR]\<rparr>) \<and>
   session_loop (Suc 4) demo_cfg demo_fb True interrupted =
     (Ended, True,
      interrupted\<lparr>rscript := [RData [3, 0, 0, 0, 0, 0, 0, 1, 0, 1]], sscript := [SelReady],
        trace := [EvSelect SelReady, EvReadFail EINTR]\<rparr>) \<and>
   read_all interrupted 1 =
     (0, [3], interrupted\<lparr>rscript := [RData [0, 0, 0, 0, 0, 0, 1, 0, 1]],
        trace := [EvReadFail EINTR, EvRead [3]]\<rparr>)"
proof -
  let ?c1 = "interrupted\<lparr>sscript := [SelReady], trace := [EvSelect SelReady]\<rparr>"
  let ?c2 = "interrupted\<lparr>rscript := [RData [3, 0, 0, 0, 0, 0, 0, 1, 0, 1]],
    sscript := [SelReady], trace := [EvSelect SelReady, EvReadFail EINTR]\<rparr>"
  have s: "sys_select interrupted = (SelReady, ?c1)" by code_simp
  have r: "sys_read ?c1 1 = (Errno EINTR, ?c2)" by code_simp
  have x: "\<forall>b. Errno EINTR \<noteq> (Ret [b] :: byte list sysret)" by simp
  have a: "read_all interrupted 1 =
     (0, [3], interrupted\<lparr>rscript := [RData [0, 0, 0, 0, 0, 0, 1, 0, 1]],
        trace := [EvReadFail EINTR, EvRead [3]]\<rparr>)" by code_simp
  from type_byte_read_not_retried [of demo_cfg demo_fb True, THEN conjunct1, rule_format,
      of interrupted ?c1 "Errno EINTR" ?c2 4] s r x a
  show ?thesis by simp
qed

text \<open>
  Claim C1. A handshake that completes has put on the wire exactly \<open>server_greeting\<close>: the
  12 bytes \<^verbatim>\<open>RFB 003.008\<close> and a line feed, the security offer \<open>1, 1\<close>, the security result
  \<open>0\<close> in four bytes, then ServerInit: width and height in two bytes each, big-endian (of
  the value cut to 16 bits, as the cast does), the 16 bytes of the pixel format, the length
  of the name in four bytes, big-endian, and that many bytes of name. Whatever the session
  writes after it starts with the header \<open>0, 0, 0, 1\<close> of a FramebufferUpdate, or is a
  piece of that header cut short by a failed write. The sequence does not depend on the
  frame rate nor on the stride.
\<close>

theorem handshake_byte_sequence:
  "(\<forall>c c'. handshake cfg c = (True, c') \<longrightarrow> sent c' = sent c @ server_greeting cfg) \<and>
   (\<forall>n fbmem c st c''. fst (handshake cfg c) \<and> serve_client n cfg fbmem c = (st, c'') \<longrightarrow>
      (\<exists>rest. sent c'' = sent c @ server_greeting cfg @ rest \<and>
         (prefix rest [0, 0, 0, 1] \<or> prefix [0, 0, 0, 1] rest))) \<and>
   server_greeting cfg =
     rfb_version @ sec_types @ be32 0 @ be16 (of_nat (width cfg)) @ be16 (of_nat (height cfg)) @
     pixel_format @ be32 (of_nat (length server_name)) @ server_name \<and>
   length (server_greeting cfg) = 12 + 2 + 4 + (2 + 2 + 16 + 4 + length server_name) \<and>
   ntoh (be16 (of_nat (width cfg))) = width cfg mod 65536 \<and>
   ntoh (be16 (of_nat (height cfg))) = height cfg mod 65536 \<and>
   server_greeting (cfg\<lparr>stride := s, fps := f\<rparr>) = server_greeting cfg"
proof -
  have a: "sent c' = sent c @ server_greeting cfg" if "handshake cfg c = (True, c')" for c c'
    using handshake_greeting [OF that] .
  have b: "\<exists>rest. sent c'' = sent c @ server_greeting cfg @ rest \<and>
         (prefix rest [0, 0, 0, 1] \<or> prefix [0, 0, 0, 1] rest)"
    if "fst (handshake cfg c) \<and> serve_client n cfg fbmem c = (st, c'')" for n fbmem c st c''
    using serve_client_sent [of cfg c n fbmem st c''] that by blast
  have d: "server_greeting cfg =
     rfb_version @ sec_types @ be32 0 @ be16 (of_nat (width cfg)) @ be16 (of_nat (height cfg)) @
     pixel_format @ be32 (of_nat (length server_name)) @ server_name"
    by (simp add: server_greeting_def rfb_version_def sec_types_def be32_small
        pixel_format_bytes server_name_length) (simp add: server_name_def)
  have e: "length (server_greeting cfg) = 12 + 2 + 4 + (2 + 2 + 16 + 4 + length server_name)"
    by (simp add: server_greeting_def be16_def server_name_def)
  have w: "ntoh (be16 (of_nat (width cfg))) = width cfg mod 65536"
    by (simp add: ntoh_be16 unat_of_nat)
  have h: "ntoh (be16 (of_nat (height cfg))) = height cfg mod 65536"
    by (simp add: ntoh_be16 unat_of_nat)
  have i: "server_greeting (cfg\<lparr>stride := s, fps := f\<rparr>) = server_greeting cfg"
    by (simp add: server_greeting_def)
  from a b d e w h i show ?thesis by blast
qed

theorem handshake_byte_sequence_witness:
  "fst (handshake demo_cfg viewer) \<and>
   sent (snd (handshake demo_cfg viewer)) =
     [82, 70, 66, 32, 48, 48, 51, 46, 48, 48, 56, 10, 1, 1, 0, 0, 0, 0, 0, 1, 0, 1,
      32, 24, 0, 1, 0, 255, 0, 255, 0, 255, 16, 8, 0, 0, 0, 0, 0, 0, 0, 22,
      79, 112, 101, 110, 67, 101, 110, 116, 97, 117, 114, 105, 32, 102, 98, 48,
      32, 40, 82, 65, 87, 41] \<and>
   server_greeting demo_cfg = sent (snd (handshake demo_cfg viewer)) \<and>
   sent (snd (serve_client 2 demo_cfg demo_fb viewer)) =
     server_greeting demo_cfg @
     [0, 0, 0, 1, 0, 0, 0, 0, 0, 1, 0, 1, 0, 0, 0, 0, 1, 2, 3, 4]"
proof -
  note T = handshake_byte_sequence [of demo_cfg]
  have h1: "fst (handshake demo_cfg viewer)" by code_simp
  then have h: "handshake demo_cfg viewer = (True, snd (handshake demo_cfg viewer))"
    by (cases "handshake demo_cfg viewer") simp
  have v: "sent viewer = []" by code_simp
  have g: "server_greeting demo_cfg =
     [82, 70, 66, 32, 48, 48, 51, 46, 48, 48, 56, 10, 1, 1, 0, 0, 0, 0, 0, 1, 0, 1,
      32, 24, 0, 1, 0, 255, 0, 255, 0, 255, 16, 8, 0, 0, 0, 0, 0, 0, 0, 22,
      79, 112, 101, 110, 67, 101, 110, 116, 97, 117, 114, 105, 32, 102, 98, 48,
      32, 40, 82, 65, 87, 41]" by code_simp
  have s: "sent (snd (serve_client 2 demo_cfg demo_fb viewer)) =
     server_greeting demo_cfg @
     [0, 0, 0, 1, 0, 0, 0, 0, 0, 1, 0, 1, 0, 0, 0, 0, 1, 2, 3, 4]" by code_simp
  from T [THEN conjunct1, rule_format, OF h] v g s h1 show ?thesis by simp
qed

text \<open>
  Claim C6. A protocol violation ends the session with nothing more written. When the
  handshake has reached the security choice and the byte chosen is not 1, the connection
  is closed with no call of \<^verbatim>\<open>write\<close> after the security offer, and the accept loop goes on
  to the next client. When the poll reports the socket readable and the type byte read is
  none of 0, 2, 3, 4, 5, 6, the iteration ends in \<^verbatim>\<open>break\<close> with no call of \<^verbatim>\<open>write\<close>
  made, whatever the number of iterations still allowed the session loop is over, and a
  session loop that is over leads to the connection being closed, again without a write,
  and to the accept loop going on to the next client.
\<close>

theorem protocol_violation_ends_session:
  "(\<forall>c c1 cver c2 c3 chosen c4 n as.
      write_all c rfb_version = (0, c1) \<and> read_all c1 12 = (0, cver, c2) \<and>
      write_all c2 sec_types = (0, c3) \<and> read_all c3 1 = (0, chosen, c4) \<and>
      hd chosen \<noteq> 1 \<longrightarrow>
        serve_client n cfg fbmem c = (Ended, close_conn c4) \<and>
        write_calls (close_conn c4) = write_calls c3 \<and>
        accept_loop n cfg fbmem (Accept c # as) =
          (case accept_loop n cfg fbmem as of (p, cs) \<Rightarrow> (p, close_conn c4 # cs))) \<and>
   (\<forall>c c1 t c2 ready n.
      sys_select c = (SelReady, c1) \<and> sys_read c1 1 = (Ret [t], c2) \<and>
      t \<notin> {0, 2, 3, 4, 5, 6} \<longrightarrow>
        tick cfg fbmem ready c = (Break, ready, c2) \<and>
        session_loop (Suc n) cfg fbmem ready c = (Ended, ready, c2) \<and>
        write_calls c2 = write_calls c) \<and>
   (\<forall>c c1 n ready c2 as.
      handshake cfg c = (True, c1) \<and> malloc_ok c1 \<and>
      session_loop n cfg fbmem False c1 = (Ended, ready, c2) \<longrightarrow>
        serve_client n cfg fbmem c = (Ended, close_conn c2) \<and>
        write_calls (close_conn c2) = write_calls c2 \<and>
        accept_loop n cfg fbmem (Accept c # as) =
          (case accept_loop n cfg fbmem as of (p, cs) \<Rightarrow> (p, close_conn c2 # cs)))"
proof -
  have a: "serve_client n cfg fbmem c = (Ended, close_conn c4) \<and>
        write_calls (close_conn c4) = write_calls c3 \<and>
        accept_loop n cfg fbmem (Accept c # as) =
          (case accept_loop n cfg fbmem as of (p, cs) \<Rightarrow> (p, close_conn c4 # cs))"
    if h: "write_all c rfb_version = (0, c1) \<and> read_all c1 12 = (0, cver, c2) \<and>
      write_all c2 sec_types = (0, c3) \<and> read_all c3 1 = (0, chosen, c4) \<and>
      hd chosen \<noteq> 1" for c c1 cver c2 c3 chosen c4 n as
  proof -
    from h have "handshake cfg c = (False, close_conn c4)"
      using security_choice_refused [of c c1 cver c2 c3 chosen c4 cfg] by blast
    then have s: "serve_client n cfg fbmem c = (Ended, close_conn c4)"
      by (simp add: serve_client_def)
    from h have "write_calls c4 = write_calls c3"
      using read_all_write_calls [of c3 1 0 chosen c4] by blast
    with s show ?thesis by simp
  qed
  have b: "tick cfg fbmem ready c = (Break, ready, c2) \<and>
        session_loop (Suc n) cfg fbmem ready c = (Ended, ready, c2) \<and>
        write_calls c2 = write_calls c"
    if h: "sys_select c = (SelReady, c1) \<and> sys_read c1 1 = (Ret [t], c2) \<and>
      t \<notin> {0, 2, 3, 4, 5, 6}" for c c1 t c2 ready n
  proof -
    from h have t: "tick cfg fbmem ready c = (Break, ready, c2)"
      using tick_unknown_type [of c c1 t c2 cfg fbmem ready] by blast
    from h have "others c1 = others c @ [EvSelect SelReady]" "others c2 = others c1"
      using sys_select_others [of c SelReady c1] sys_read_others [of c1 1 "Ret [t]" c2]
      by blast+
    then have "write_calls c2 = write_calls c" by (simp add: write_calls_via_others)
    with t show ?thesis by simp
  qed
  have d: "serve_client n cfg fbmem c = (Ended, close_conn c2) \<and>
        write_calls (close_conn c2) = write_calls c2 \<and>
        accept_loop n cfg fbmem (Accept c # as) =
          (case accept_loop n cfg fbmem as of (p, cs) \<Rightarrow> (p, close_conn c2 # cs))"
    if h: "handshake cfg c = (True, c1) \<and> malloc_ok c1 \<and>
      session_loop n cfg fbmem False c1 = (Ended, ready, c2)" for c c1 n ready c2 as
  proof -
    from h have "serve_client n cfg fbmem c = (Ended, close_conn c2)"
      using serve_client_ended [of cfg c c1 n fbmem ready c2] by blast
    then show ?thesis by simp
  qed
  from a b d show ?thesis by blast
qed

theorem protocol_violation_ends_session_witness:
  "serve_client (Suc 4) demo_cfg demo_fb refuser =
     (Ended, refuser\<lparr>wscript := replicate 6 (WAccept 32), rscript := [],
        trace := [EvWrite rfb_version, EvRead rfb_version, EvWrite [1, 1], EvRead [2],
          EvClose]\<rparr>) \<and>
   serve_client (Suc 4) demo_cfg demo_fb stranger =
     (Ended, close_conn (snd (sys_read (snd (sys_select (snd (handshake demo_cfg stranger)))) 1))) \<and>
   write_calls (snd (serve_client (Suc 4) demo_cfg demo_fb stranger)) =
     write_calls (snd (handshake demo_cfg stranger)) \<and>
   sent (snd (serve_client (Suc 4) demo_cfg demo_fb stranger)) = server_greeting demo_cfg \<and>
   received (snd (serve_client (Suc 4) demo_cfg demo_fb stranger)) = rfb_version @ [1, 1, 99] \<and>
   accept_loop (Suc 4) demo_cfg demo_fb [Accept refuser, Accept stranger] =
     (Accepting, [snd (serve_client (Suc 4) demo_cfg demo_fb refuser),
                  snd (serve_client (Suc 4) demo_cfg demo_fb stranger)])"
proof -
  note T = protocol_violation_ends_session [of demo_cfg demo_fb]
  note Ta = T [THEN conjunct1, rule_format]
  note Tb = T [THEN conjunct2, THEN conjunct1, rule_format]
  note Td = T [THEN conjunct2, THEN conjunct2, rule_format]
  define c1 where "c1 = snd (write_all refuser rfb_version)"
  define c2 where "c2 = snd (snd (read_all c1 12))"
  define c3 where "c3 = snd (write_all c2 sec_types)"
  define c4 where "c4 = snd (snd (read_all c3 1))"
  have w1: "write_all refuser rfb_version = (0, c1)" unfolding c1_def by code_simp
  have r2: "read_all c1 12 = (0, rfb_version, c2)" unfolding c2_def c1_def by code_simp
  have w3: "write_all c2 sec_types = (0, c3)" unfolding c3_def c2_def c1_def by code_simp
  have r4: "read_all c3 1 = (0, [2], c4)" unfolding c4_def c3_def c2_def c1_def by code_simp
  have ne: "hd [2 :: byte] \<noteq> 1" by simp
  have e4: "close_conn c4 = refuser\<lparr>wscript := replicate 6 (WAccept 32), rscript := [],
        trace := [EvWrite rfb_version, EvRead rfb_version, EvWrite [1, 1], EvRead [2],
          EvClose]\<rparr>"
    unfolding c4_def c3_def c2_def c1_def by code_simp
  from w1 r2 w3 r4 ne have pa: "write_all refuser rfb_version = (0, c1) \<and>
      read_all c1 12 = (0, rfb_version, c2) \<and> write_all c2 sec_types = (0, c3) \<and>
      read_all c3 1 = (0, [2], c4) \<and> hd [2 :: byte] \<noteq> 1" by blast
  note a = Ta [OF pa, of "Suc 4" "[Accept stranger]"]
  define s0 where "s0 = snd (handshake demo_cfg stranger)"
  define s1 where "s1 = snd (sys_select s0)"
  define s2 where "s2 = snd (sys_read s1 1)"
  have h: "handshake demo_cfg stranger = (True, s0)" unfolding s0_def by code_simp
  have m: "malloc_ok s0" unfolding s0_def by code_simp
  have p: "sys_select s0 = (SelReady, s1)" unfolding s1_def s0_def by code_simp
  have q: "sys_read s1 1 = (Ret [99], s2)" unfolding s2_def s1_def s0_def by code_simp
  have nt: "(99 :: byte) \<notin> {0, 2, 3, 4, 5, 6}" by simp
  from p q nt have pb: "sys_select s0 = (SelReady, s1) \<and> sys_read s1 1 = (Ret [99], s2) \<and>
      (99 :: byte) \<notin> {0, 2, 3, 4, 5, 6}" by blast
  note b = Tb [OF pb, of False 4]
  from h m b have pd: "handshake demo_cfg stranger = (True, s0) \<and> malloc_ok s0 \<and>
      session_loop (Suc 4) demo_cfg demo_fb False s0 = (Ended, False, s2)" by blast
  note d = Td [OF pd, of "[]"]
  have x: "snd (sys_read (snd (sys_select (snd (handshake demo_cfg stranger)))) 1) = s2"
    by (simp only: s2_def s1_def s0_def)
  have g: "sent s0 = server_greeting demo_cfg" unfolding s0_def by code_simp
  have i: "received (close_conn s2) = rfb_version @ [1, 1, 99]"
    unfolding s2_def s1_def s0_def by code_simp
  have ws: "sent s2 = sent s0" "write_calls s1 = write_calls s0"
    unfolding s2_def s1_def s0_def by code_simp+
  have k1: "serve_client (Suc 4) demo_cfg demo_fb refuser =
     (Ended, refuser\<lparr>wscript := replicate 6 (WAccept 32), rscript := [],
        trace := [EvWrite rfb_version, EvRead rfb_version, EvWrite [1, 1], EvRead [2],
          EvClose]\<rparr>)"
    using a e4 by simp
  have k2: "serve_client (Suc 4) demo_cfg demo_fb stranger =
     (Ended, close_conn (snd (sys_read (snd (sys_select (snd (handshake demo_cfg stranger)))) 1)))"
    unfolding x using d by blast
  have s5: "snd (serve_client (Suc 4) demo_cfg demo_fb stranger) = close_conn s2"
    using d by simp
  have k3: "write_calls (snd (serve_client (Suc 4) demo_cfg demo_fb stranger)) =
     write_calls (snd (handshake demo_cfg stranger))"
    unfolding s5 s0_def [symmetric] using b d by simp
  have k4: "sent (snd (serve_client (Suc 4) demo_cfg demo_fb stranger)) =
     server_greeting demo_cfg"
    unfolding s5 using g ws by simp
  have k5: "received (snd (serve_client (Suc 4) demo_cfg demo_fb stranger)) =
     rfb_version @ [1, 1, 99]"
    unfolding s5 using i by simp
  have k6: "accept_loop (Suc 4) demo_cfg demo_fb [Accept refuser, Accept stranger] =
     (Accepting, [snd (serve_client (Suc 4) demo_cfg demo_fb refuser),
                  snd (serve_client (Suc 4) demo_cfg demo_fb stranger)])"
    using a d by simp
  from k1 k2 k3 k4 k5 k6 show ?thesis by blast
qed

text \<open>
  Claim C3, on the code. A read that fails inside the encoding list of SetEncodings or
  inside the text of ClientCutText leaves only the inner loop. For a client that has asked
  for updates and closes its sending side in the middle of either message, the iteration
  goes on after the failed read: it sends a whole FramebufferUpdate, sleeps, and ends in
  \<open>Continue\<close>; for a client that has not asked for updates it sleeps 50 ms and ends in
  \<open>Continue\<close>. From the connection on: after the handshake, a FramebufferUpdateRequest
  and a SetEncodings message cut short, the session is still running after its second
  iteration, which has sent a second frame after the read that returned nothing.
\<close>

theorem truncated_payload_session_continues:
  "tick demo_cfg demo_fb True short_encodings =
     (Continue, True,
      \<lparr>wscript = [], rscript = [], sscript = [], malloc_ok = True,
        trace = [EvSelect SelReady, EvRead [2], EvRead [0], EvRead [0, 2],
          EvRead [0, 0, 0, 0], EvRead [], EvWrite [0, 0, 0, 1], EvWrite [0, 0],
          EvWrite [0, 0], EvWrite [0, 1], EvWrite [0, 1], EvWrite [0, 0, 0, 0],
          EvWrite [1, 2, 3, 4], EvSleep 333]\<rparr>) \<and>
   tick demo_cfg demo_fb True short_cut_text =
     (Continue, True,
      \<lparr>wscript = [], rscript = [], sscript = [], malloc_ok = True,
        trace = [EvSelect SelReady, EvRead [6], EvRead [0, 0, 0], EvRead [0, 0, 0, 5],
          EvRead [104, 105], EvRead [], EvWrite [0, 0, 0, 1], EvWrite [0, 0],
          EvWrite [0, 0], EvWrite [0, 1], EvWrite [0, 1], EvWrite [0, 0, 0, 0],
          EvWrite [1, 2, 3, 4], EvSleep 333]\<rparr>) \<and>
   tick demo_cfg demo_fb False short_cut_text =
     (Continue, False,
      \<lparr>wscript = replicate 7 (WAccept 16), rscript = [], sscript = [], malloc_ok = True,
        trace = [EvSelect SelReady, EvRead [6], EvRead [0, 0, 0], EvRead [0, 0, 0, 5],
          EvRead [104, 105], EvRead [], EvSleep 50]\<rparr>) \<and>
   fst (serve_client 2 demo_cfg demo_fb half_closing) = Running \<and>
   received (snd (serve_client 2 demo_cfg demo_fb half_closing)) =
     rfb_version @ [1, 1] @ [3, 0, 0, 0, 0, 0, 0, 1, 0, 1] @ [2, 0, 0, 2, 0, 0, 0, 0] \<and>
   sent (snd (serve_client 2 demo_cfg demo_fb half_closing)) =
     server_greeting demo_cfg @
     [0, 0, 0, 1, 0, 0, 0, 0, 0, 1, 0, 1, 0, 0, 0, 0, 1, 2, 3, 4] @
     [0, 0, 0, 1, 0, 0, 0, 0, 0, 1, 0, 1, 0, 0, 0, 0, 1, 2, 3, 4] \<and>
   drop 26 (trace (snd (serve_client 2 demo_cfg demo_fb half_closing))) =
     [EvSelect SelReady, EvRead [2], EvRead [0], EvRead [0, 2], EvRead [0, 0, 0, 0],
      EvRead [], EvWrite [0, 0, 0, 1], EvWrite [0, 0], EvWrite [0, 0], EvWrite [0, 1],
      EvWrite [0, 1], EvWrite [0, 0, 0, 0], EvWrite [1, 2, 3, 4], EvSleep 333]"
  by code_simp

text \<open>
  Claim C4, on the code. A failed write of a scanline leaves only the scanline loop. With
  two rows to send and the connection reset during the first, the second row is not
  attempted, but the iteration then sleeps \<open>1000 / fps\<close> ms and ends in \<open>Continue\<close>; the
  next iteration polls the socket and calls \<^verbatim>\<open>write\<close> for the header of a new frame, and
  the session ends only when that write fails.
\<close>

theorem scanline_write_failure_session_continues:
  "tick two_rows two_rows_fb True reset_in_frame =
     (Continue, True,
      \<lparr>wscript = [], rscript = [], sscript = [SelNone], malloc_ok = True,
        trace = [EvSelect SelNone, EvWrite [0, 0, 0, 1], EvWrite [0, 0], EvWrite [0, 0],
          EvWrite [0, 1], EvWrite [0, 2], EvWrite [0, 0, 0, 0], EvWriteFail ECONNRESET,
          EvSleep 333]\<rparr>) \<and>
   session_loop 2 two_rows two_rows_fb True reset_in_frame =
     (Ended, True,
      \<lparr>wscript = [], rscript = [], sscript = [], malloc_ok = True,
        trace = [EvSelect SelNone, EvWrite [0, 0, 0, 1], EvWrite [0, 0], EvWrite [0, 0],
          EvWrite [0, 1], EvWrite [0, 2], EvWrite [0, 0, 0, 0], EvWriteFail ECONNRESET,
          EvSleep 333, EvSelect SelNone, EvWriteFail EPIPE]\<rparr>) \<and>
   fst (serve_client 2 two_rows two_rows_fb reset_in_first_frame) = Ended \<and>
   drop 23 (trace (snd (serve_client 2 two_rows two_rows_fb reset_in_first_frame))) =
     [EvWrite [0, 0, 0, 0], EvWriteFail ECONNRESET, EvSleep 333, EvSelect SelNone,
      EvWriteFail EPIPE, EvClose]"
  by code_simp

end
